theory Spec2Isabelle
  imports Main "HOL-Library.Word" "HOL-Library.Sublist"
begin

section \<open>Values exchanged with the transports\<close>

text \<open>
  The relay of \<^verbatim>\<open>main.py\<close> moves JSON text and raw bytes between two websockets.
  A value returned by \<^verbatim>\<open>json.loads\<close> is one of the constructors below; a Python
  \<^verbatim>\<open>dict\<close> is an association list read with \<open>map_of\<close>. A Python \<^verbatim>\<open>str\<close> is a
  \<open>string\<close> holding its UTF-8 bytes. A Python float is a mantissa and an exponent; only
  its being zero matters to the code.
\<close>

type_synonym byte = "8 word"
type_synonym bytes = "byte list"
type_synonym pyfloat = "int \<times> int"

datatype json =
    JNull
  | JBool bool
  | JInt int
  | JFloat pyfloat
  | JStr string
  | JArr "json list"
  | JObj "(string \<times> json) list"

text \<open>The exceptions the code can meet; \<open>External\<close> is a failure of a remote service.\<close>

datatype error =
    JSONDecodeError
  | KeyError
  | TypeError
  | AttributeError
  | Base64Error
  | External string

text \<open>Python truthiness, as \<^verbatim>\<open>or\<close>, \<^verbatim>\<open>not\<close>, \<^verbatim>\<open>if\<close> and \<^verbatim>\<open>bool()\<close> read it.\<close>

fun truthy :: "json \<Rightarrow> bool" where
  "truthy JNull = False"
| "truthy (JBool b) = b"
| "truthy (JInt i) = (i \<noteq> 0)"
| "truthy (JFloat f) = (fst f \<noteq> 0)"
| "truthy (JStr s) = (s \<noteq> [])"
| "truthy (JArr xs) = (xs \<noteq> [])"
| "truthy (JObj kvs) = (kvs \<noteq> [])"

definition py_or :: "json \<Rightarrow> json \<Rightarrow> json" where
  "py_or a b = (if truthy a then a else b)"

text \<open>\<^verbatim>\<open>d.get(k)\<close>, \<^verbatim>\<open>d.get(k, default)\<close> and \<^verbatim>\<open>k in d\<close> on a dict.\<close>

definition dict_get :: "(string \<times> json) list \<Rightarrow> string \<Rightarrow> json" where
  "dict_get d k = (case map_of d k of None \<Rightarrow> JNull | Some v \<Rightarrow> v)"

definition dict_get_default :: "(string \<times> json) list \<Rightarrow> string \<Rightarrow> json \<Rightarrow> json" where
  "dict_get_default d k dflt = (case map_of d k of None \<Rightarrow> dflt | Some v \<Rightarrow> v)"

definition has_key :: "(string \<times> json) list \<Rightarrow> string \<Rightarrow> bool" where
  "has_key d k = (map_of d k \<noteq> None)"

text \<open>
  \<^verbatim>\<open>data[k]\<close> with a string key: a dict raises KeyError on a missing key, every other
  JSON value raises TypeError.
\<close>

fun subscript :: "json \<Rightarrow> string \<Rightarrow> error + json" where
  "subscript (JObj d) k = (case map_of d k of None \<Rightarrow> Inl KeyError | Some v \<Rightarrow> Inr v)"
| "subscript _ k = Inl TypeError"

section \<open>External collaborators\<close>

text \<open>
  Library and service calls are parameters of the model: \<^verbatim>\<open>json.loads\<close> (\<open>None\<close> when
  it raises), \<^verbatim>\<open>base64.b64decode\<close> on a \<^verbatim>\<open>str\<close> (\<open>None\<close> when it raises),
  \<^verbatim>\<open>base64.b64encode(..).decode("utf-8")\<close>, the embeddings endpoint and the vector index
  queried with \<^verbatim>\<open>top_k\<close>.
\<close>

type_synonym vector = "pyfloat list"

record match =
  match_id :: string
  metadata :: "(string \<times> json) list option"

record env =
  json_loads :: "string \<Rightarrow> json option"
  b64decode :: "string \<Rightarrow> bytes option"
  b64encode :: "bytes \<Rightarrow> string"
  embeddings_create :: "string \<Rightarrow> error + vector"
  index_query :: "vector \<Rightarrow> nat \<Rightarrow> error + match list"

section \<open>Observable effects\<close>

datatype pyval = PStr string | PJson json | PErr error

datatype sts_out = StsText json | StsBinary bytes

text \<open>
  An effect is one call that leaves the process: \<^verbatim>\<open>print(*args)\<close>,
  \<^verbatim>\<open>twilio_ws.send_text(json.dumps(v))\<close>, \<^verbatim>\<open>sts_ws.send(..)\<close> (of \<^verbatim>\<open>json.dumps(v)\<close> or of
  a frame), the embeddings request and the index query. Sends are taken to succeed.
\<close>

datatype effect =
    Print "pyval list"
  | TwilioSendText json
  | StsSend sts_out
  | EmbeddingsCreate string
  | IndexQuery vector nat

section \<open>twilio\_receiver\<close>

definition BUFFER_SIZE :: nat where
  "BUFFER_SIZE = 160 * 20"

record rstate =
  inbuffer :: bytes
  audio_queue :: "bytes list"
  streamsid_queue :: "json list"
  printed :: "effect list"

text \<open>
  \<open>audio_queue\<close> and \<open>streamsid_queue\<close> hold what \<^verbatim>\<open>put_nowait\<close> has appended, oldest first.
\<close>

definition rstate0 :: rstate where
  "rstate0 = \<lparr>inbuffer = [], audio_queue = [], streamsid_queue = [], printed = []\<rparr>"

text \<open>The \<^verbatim>\<open>while len(inbuffer) >= BUFFER_SIZE\<close> loop.\<close>

function drain :: "rstate \<Rightarrow> rstate" where
  "drain s =
     (if length (inbuffer s) \<ge> BUFFER_SIZE
      then drain (s\<lparr>audio_queue := audio_queue s @ [take BUFFER_SIZE (inbuffer s)],
                     inbuffer := drop BUFFER_SIZE (inbuffer s)\<rparr>)
      else s)"
  by pat_completeness auto
termination
  by (relation "measure (\<lambda>s. length (inbuffer s))") (auto simp: BUFFER_SIZE_def)

declare drain.simps [simp del]

datatype ctl = Continue | Break

text \<open>\<^verbatim>\<open>base64.b64decode(payload)\<close>: a \<^verbatim>\<open>str\<close> is decoded, any other JSON value raises TypeError.\<close>

fun decode_payload :: "env \<Rightarrow> json \<Rightarrow> error + bytes" where
  "decode_payload e (JStr p) = (case b64decode e p of None \<Rightarrow> Inl Base64Error | Some c \<Rightarrow> Inr c)"
| "decode_payload e _ = Inl TypeError"

text \<open>The body of the \<^verbatim>\<open>try\<close> block for one message.\<close>

definition twilio_try :: "env \<Rightarrow> string \<Rightarrow> rstate \<Rightarrow> error + (ctl \<times> rstate)" where
  "twilio_try e message s =
     (case json_loads e message of
        None \<Rightarrow> Inl JSONDecodeError
      | Some data \<Rightarrow>
         (case subscript data ''event'' of
            Inl err \<Rightarrow> Inl err
          | Inr event \<Rightarrow>
             if event = JStr ''start'' then
               (case subscript data ''start'' of
                  Inl err \<Rightarrow> Inl err
                | Inr start \<Rightarrow>
                   (case subscript start ''streamSid'' of
                      Inl err \<Rightarrow> Inl err
                    | Inr streamsid \<Rightarrow>
                        Inr (Continue,
                             drain (s\<lparr>streamsid_queue := streamsid_queue s @ [streamsid]\<rparr>))))
             else if event = JStr ''media'' then
               (case subscript data ''media'' of
                  Inl err \<Rightarrow> Inl err
                | Inr media \<Rightarrow>
                   (case subscript media ''payload'' of
                      Inl err \<Rightarrow> Inl err
                    | Inr payload \<Rightarrow>
                       (case decode_payload e payload of
                          Inl err \<Rightarrow> Inl err
                        | Inr chunk \<Rightarrow>
                            Inr (Continue, drain (s\<lparr>inbuffer := inbuffer s @ chunk\<rparr>)))))
             else if event = JStr ''stop'' then
               Inr (Break, s\<lparr>printed := printed s @ [Print [PStr ''Twilio STOP'']]\<rparr>)
             else Inr (Continue, drain s)))"

text \<open>One iteration of the \<^verbatim>\<open>async for\<close>: any exception is printed and ends the loop.\<close>

definition twilio_step :: "env \<Rightarrow> string \<Rightarrow> rstate \<Rightarrow> ctl \<times> rstate" where
  "twilio_step e message s =
     (case twilio_try e message s of
        Inl err \<Rightarrow> (Break, s\<lparr>printed := printed s @ [Print [PStr ''Twilio error:'', PErr err]]\<rparr>)
      | Inr r \<Rightarrow> r)"

fun twilio_receiver :: "env \<Rightarrow> string list \<Rightarrow> rstate \<Rightarrow> rstate" where
  "twilio_receiver e [] s = s"
| "twilio_receiver e (m # ms) s =
     (case twilio_step e m s of
        (Continue, s') \<Rightarrow> twilio_receiver e ms s'
      | (Break, s') \<Rightarrow> s')"

section \<open>str.strip\<close>

text \<open>
  The code points Python's \<^verbatim>\<open>str.strip()\<close> removes, each as its UTF-8 bytes:
  U+0009..U+000D, U+001C..U+0020, U+0085, U+00A0, U+1680, U+2000..U+200A, U+2028, U+2029,
  U+202F, U+205F, U+3000.
\<close>

definition whitespace :: "string list" where
  "whitespace =
    [[CHR 0x09], [CHR 0x0A], [CHR 0x0B], [CHR 0x0C], [CHR 0x0D],
     [CHR 0x1C], [CHR 0x1D], [CHR 0x1E], [CHR 0x1F], [CHR 0x20],
     [CHR 0xC2, CHR 0x85], [CHR 0xC2, CHR 0xA0],
     [CHR 0xE1, CHR 0x9A, CHR 0x80],
     [CHR 0xE2, CHR 0x80, CHR 0x80], [CHR 0xE2, CHR 0x80, CHR 0x81],
     [CHR 0xE2, CHR 0x80, CHR 0x82], [CHR 0xE2, CHR 0x80, CHR 0x83],
     [CHR 0xE2, CHR 0x80, CHR 0x84], [CHR 0xE2, CHR 0x80, CHR 0x85],
     [CHR 0xE2, CHR 0x80, CHR 0x86], [CHR 0xE2, CHR 0x80, CHR 0x87],
     [CHR 0xE2, CHR 0x80, CHR 0x88], [CHR 0xE2, CHR 0x80, CHR 0x89],
     [CHR 0xE2, CHR 0x80, CHR 0x8A],
     [CHR 0xE2, CHR 0x80, CHR 0xA8], [CHR 0xE2, CHR 0x80, CHR 0xA9],
     [CHR 0xE2, CHR 0x80, CHR 0xAF],
     [CHR 0xE2, CHR 0x81, CHR 0x9F],
     [CHR 0xE3, CHR 0x80, CHR 0x80]]"

definition leading_ws :: "string \<Rightarrow> string option" where
  "leading_ws s = find (\<lambda>w. prefix w s) whitespace"

definition trailing_ws :: "string \<Rightarrow> string option" where
  "trailing_ws s = find (\<lambda>w. suffix w s) whitespace"

lemma whitespace_nonempty: "w \<in> set whitespace \<Longrightarrow> w \<noteq> []"
  by (auto simp: whitespace_def)

lemma leading_ws_shorter: "leading_ws s = Some w \<Longrightarrow> length (drop (length w) s) < length s"
  by (cases s) (auto simp: leading_ws_def find_Some_iff dest!: nth_mem whitespace_nonempty)

lemma trailing_ws_shorter:
  "trailing_ws s = Some w \<Longrightarrow> length (take (length s - length w) s) < length s"
  by (cases s) (auto simp: trailing_ws_def find_Some_iff dest!: nth_mem whitespace_nonempty)

function lstrip :: "string \<Rightarrow> string" where
  "lstrip s = (case leading_ws s of None \<Rightarrow> s | Some w \<Rightarrow> lstrip (drop (length w) s))"
  by pat_completeness auto
termination
  by (relation "measure length") (auto dest: leading_ws_shorter)

function rstrip :: "string \<Rightarrow> string" where
  "rstrip s =
     (case trailing_ws s of None \<Rightarrow> s | Some w \<Rightarrow> rstrip (take (length s - length w) s))"
  by pat_completeness auto
termination
  by (relation "measure length") (auto dest: trailing_ws_shorter)

declare lstrip.simps [simp del] rstrip.simps [simp del]

definition strip :: "string \<Rightarrow> string" where
  "strip s = rstrip (lstrip s)"

section \<open>rag\_retrieve\<close>

definition sentinel :: string where
  "sentinel = ''No relevant context.''"

definition nl :: string where
  "nl = [CHR 0x0A]"

text \<open>
  The \<^verbatim>\<open>for match in res.matches\<close> loop: \<^verbatim>\<open>match.metadata\<close> is \<^verbatim>\<open>None\<close> or a dict, and an
  empty dict is falsy.
\<close>

fun collect_answers :: "json list \<Rightarrow> match list \<Rightarrow> json list" where
  "collect_answers contexts [] = contexts"
| "collect_answers contexts (m # ms) =
     (case metadata m of
        None \<Rightarrow> collect_answers contexts ms
      | Some md \<Rightarrow>
          if md \<noteq> [] \<and> has_key md ''answer''
          then collect_answers (contexts @ [dict_get md ''answer'']) ms
          else collect_answers contexts ms)"

text \<open>\<^verbatim>\<open>sep.join(xs)\<close>: TypeError as soon as an item is not a \<^verbatim>\<open>str\<close>.\<close>

fun str_join :: "string \<Rightarrow> json list \<Rightarrow> error + string" where
  "str_join sep [] = Inr []"
| "str_join sep [JStr s] = Inr s"
| "str_join sep (JStr s # x # xs) =
     (case str_join sep (x # xs) of Inl err \<Rightarrow> Inl err | Inr r \<Rightarrow> Inr (s @ sep @ r))"
| "str_join sep (_ # xs) = Inl TypeError"

definition rag_retrieve :: "env \<Rightarrow> string \<Rightarrow> effect list \<times> (error + string)" where
  "rag_retrieve e query =
     (case embeddings_create e query of
        Inl err \<Rightarrow> ([EmbeddingsCreate query], Inl err)
      | Inr vec \<Rightarrow>
         (case index_query e vec 3 of
            Inl err \<Rightarrow> ([EmbeddingsCreate query, IndexQuery vec 3], Inl err)
          | Inr matches \<Rightarrow>
             (let contexts = collect_answers [] matches
              in ([EmbeddingsCreate query, IndexQuery vec 3],
                  if contexts \<noteq> [] then str_join nl contexts else Inr sentinel))))"

section \<open>Transcript extraction\<close>

text \<open>\<^verbatim>\<open>transcript.strip(), bool(is_final), response_id\<close>: only a \<^verbatim>\<open>str\<close> has \<^verbatim>\<open>strip\<close>.\<close>

fun extract_result :: "json \<Rightarrow> json \<Rightarrow> json \<Rightarrow> error + (string \<times> bool \<times> json)" where
  "extract_result (JStr t) is_final response_id = Inr (strip t, truthy is_final, response_id)"
| "extract_result _ is_final response_id = Inl AttributeError"

text \<open>
  The alternatives block, entered with a truthy \<^verbatim>\<open>alts\<close>. \<^verbatim>\<open>alts[0]\<close> is the first item of
  a list; of a \<^verbatim>\<open>str\<close> it is a \<^verbatim>\<open>str\<close>, which has no \<^verbatim>\<open>get\<close>; a dict has no key
  \<^verbatim>\<open>0\<close>; a number or \<^verbatim>\<open>True\<close> cannot be subscripted. The first item must be a dict
  for \<^verbatim>\<open>get\<close> to exist.
\<close>

fun alternatives_block :: "json \<Rightarrow> json \<Rightarrow> json \<Rightarrow> error + (string \<times> bool \<times> json)" where
  "alternatives_block (JArr (JObj a # rest)) is_final response_id =
     (let transcript = py_or (py_or (dict_get a ''transcript'') (dict_get a ''text'')) (JStr [])
      in extract_result transcript
           (if truthy (py_or (dict_get a ''final'') (dict_get a ''is_final''))
            then JBool True else is_final)
           response_id)"
| "alternatives_block (JArr _) is_final response_id = Inl AttributeError"
| "alternatives_block (JStr _) is_final response_id = Inl AttributeError"
| "alternatives_block (JObj _) is_final response_id = Inl KeyError"
| "alternatives_block _ is_final response_id = Inl TypeError"

definition extract_transcript_from_deepgram :: "json \<Rightarrow> error + (string \<times> bool \<times> json)" where
  "extract_transcript_from_deepgram decoded =
     (case decoded of
        JObj d \<Rightarrow>
          (let response_id = py_or (dict_get d ''response_id'') (dict_get d ''id'');
               transcript = py_or (py_or (dict_get d ''transcript'') (dict_get d ''text'')) (JStr []);
               is_final = (if has_key d ''is_final'' then dict_get d ''is_final'' else JBool False)
           in if \<not> truthy transcript \<and> has_key d ''alternatives''
              then (let alts = dict_get_default d ''alternatives'' (JArr [])
                    in if truthy alts then alternatives_block alts is_final response_id
                       else extract_result transcript is_final response_id)
              else extract_result transcript is_final response_id)
      | _ \<Rightarrow> Inl AttributeError)"

section \<open>Barge-in and the turn controller\<close>

definition clear_message :: "json \<Rightarrow> json" where
  "clear_message streamsid = JObj [(''event'', JStr ''clear''), (''streamSid'', streamsid)]"

definition handle_barge_in :: "json \<Rightarrow> json \<Rightarrow> effect list \<times> (error + unit)" where
  "handle_barge_in decoded streamsid =
     (case decoded of
        JObj d \<Rightarrow>
          if dict_get d ''type'' = JStr ''UserStartedSpeaking''
          then ([TwilioSendText (clear_message streamsid)], Inr ())
          else ([], Inr ())
      | _ \<Rightarrow> ([], Inl AttributeError))"

definition ldquo :: string where "ldquo = [CHR 0xE2, CHR 0x80, CHR 0x9C]"
definition rdquo :: string where "rdquo = [CHR 0xE2, CHR 0x80, CHR 0x9D]"
definition rsquo :: string where "rsquo = [CHR 0xE2, CHR 0x80, CHR 0x99]"

text \<open>The f-string, cut at \<^verbatim>\<open>{transcript}\<close> and \<^verbatim>\<open>{context}\<close>.\<close>

definition prompt_head :: string where
  "prompt_head =
    nl @ ''You are Skillorea AI, the official voice assistant of the Skillorea educational platform.'' @ nl @
    nl @ ''Your purpose:'' @ nl @
    ''- Introduce and promote the Skillorea.'' @ nl @
    ''- Explain features, benefits, courses, and offerings of Skillorea.'' @ nl @
    ''- Answer user questions ONLY using the information provided in the retrieved context.'' @ nl @
    ''- Do NOT create information that is not present in the context.'' @ nl @
    ''- Do NOT use external knowledge outside the context.'' @ nl @
    ''- If the user asks something not present in the context, politely say:'' @ nl @
    ''  '' @ ldquo @ ''I don'' @ rsquo @ ''t have that information in my Skillorea knowledge base.'' @ rdquo @ nl @
    nl @ ''Speaking Style:'' @ nl @
    ''- Friendly, simple, and clear.'' @ nl @
    ''- Sound like an app promoter, not a teacher.'' @ nl @
    ''- Keep answers short and direct unless the user asks for details.'' @ nl @
    ''- If the user seems confused, re-explain the feature simply.'' @ nl @
    nl @ ''Rules:'' @ nl @
    ''1. ALWAYS base your answer only on the RAG context.'' @ nl @
    ''2. NEVER invent or guess.'' @ nl @
    ''3. NEVER answer using general knowledge.'' @ nl @
    ''4. If context is missing or unrelated, say you don'' @ rsquo @ ''t have that information.'' @ nl @
    ''5. Your identity is ONLY '' @ ldquo @ ''Skillorea AI,'' @ rdquo @ '' not a tutor or medical/technical expert.'' @ nl @
    nl @ ''User Question:'' @ nl"

definition prompt_mid :: string where
  "prompt_mid = nl @ nl @ ''Retrieved Context (your ONLY knowledge):'' @ nl"

definition prompt_tail :: string where
  "prompt_tail =
    nl @ nl @ ''Using ONLY the retrieved context, respond as the Skillorea app'' @ rsquo @ ''s voice assistant.'' @ nl @
    ''If the context does not contain the answer, clearly state that the information is not available.'' @ nl @
    nl"

definition instructions :: "string \<Rightarrow> string \<Rightarrow> string" where
  "instructions transcript context = prompt_head @ transcript @ prompt_mid @ context @ prompt_tail"

definition response_create :: "json \<Rightarrow> string \<Rightarrow> json" where
  "response_create response_id instr =
     JObj [(''type'', JStr ''response.create''),
           (''response_id'', response_id),
           (''instructions'', JStr (strip instr))]"

text \<open>The \<^verbatim>\<open>try\<close>/\<^verbatim>\<open>except Exception\<close> around \<^verbatim>\<open>rag_retrieve\<close>.\<close>

definition retrieve_context :: "env \<Rightarrow> string \<Rightarrow> effect list \<times> string" where
  "retrieve_context e transcript =
     (case rag_retrieve e transcript of
        (fx, Inl err) \<Rightarrow> (fx @ [Print [PStr ''RAG error:'', PErr err]], sentinel)
      | (fx, Inr context) \<Rightarrow> (fx, context))"

definition handle_text_message :: "env \<Rightarrow> json \<Rightarrow> json \<Rightarrow> effect list \<times> (error + unit)" where
  "handle_text_message e decoded streamsid =
     (case handle_barge_in decoded streamsid of
        (fx, Inl err) \<Rightarrow> (fx, Inl err)
      | (fx, Inr _) \<Rightarrow>
         (case extract_transcript_from_deepgram decoded of
            Inl err \<Rightarrow> (fx, Inl err)
          | Inr (transcript, is_final, response_id) \<Rightarrow>
              if transcript = [] then (fx, Inr ())
              else if \<not> is_final then (fx @ [Print [PStr ''Partial:'', PStr transcript]], Inr ())
              else
                (case retrieve_context e transcript of
                   (rfx, context) \<Rightarrow>
                     (fx @ [Print [PStr ''Final transcript:'', PStr transcript]] @ rfx @
                      [Print [PStr ''Sending response.create to Deepgram...''],
                       StsSend (StsText (response_create response_id
                                           (instructions transcript context)))],
                      Inr ()))))"

section \<open>sts\_receiver\<close>

datatype ws_message = Text string | Binary bytes

definition media_message :: "env \<Rightarrow> json \<Rightarrow> bytes \<Rightarrow> json" where
  "media_message e streamsid raw_mulaw =
     JObj [(''event'', JStr ''media''),
           (''streamSid'', streamsid),
           (''media'', JObj [(''payload'', JStr (b64encode e raw_mulaw))])]"

text \<open>One iteration of \<^verbatim>\<open>async for message in sts_ws\<close>; nothing catches an exception here.\<close>

fun sts_receiver_step :: "env \<Rightarrow> json \<Rightarrow> ws_message \<Rightarrow> effect list \<times> (error + unit)" where
  "sts_receiver_step e streamsid (Text message) =
     (case json_loads e message of
        None \<Rightarrow> ([], Inl JSONDecodeError)
      | Some decoded \<Rightarrow>
         (case handle_text_message e decoded streamsid of
            (fx, r) \<Rightarrow> (Print [PStr ''Deepgram:'', PJson decoded] # fx, r)))"
| "sts_receiver_step e streamsid (Binary raw_mulaw) =
     ([TwilioSendText (media_message e streamsid raw_mulaw)], Inr ())"

fun sts_receiver :: "env \<Rightarrow> json \<Rightarrow> ws_message list \<Rightarrow> effect list \<times> (error + unit)" where
  "sts_receiver e streamsid [] = ([], Inr ())"
| "sts_receiver e streamsid (m # ms) =
     (case sts_receiver_step e streamsid m of
        (fx, Inl err) \<Rightarrow> (fx, Inl err)
      | (fx, Inr _) \<Rightarrow>
         (case sts_receiver e streamsid ms of (fx', r) \<Rightarrow> (fx @ fx', r)))"

section \<open>The three loops of twilio\_handler\<close>

text \<open>
  \<^verbatim>\<open>asyncio.gather\<close> runs \<^verbatim>\<open>sts_sender\<close>, \<^verbatim>\<open>sts_receiver\<close> and \<^verbatim>\<open>twilio_receiver\<close> on one
  event loop. \<^verbatim>\<open>twilio_handler\<close> cancels no task, and closes the agent transport only by
  leaving its \<^verbatim>\<open>async with\<close>, once \<^verbatim>\<open>gather\<close> has returned or raised. A task is running,
  has returned, or has ended with an exception. An event of a schedule resumes one task
  up to its next \<^verbatim>\<open>await\<close>, or closes a transport, at any moment: by its peer, or by the
  handler leaving. The messages of an inbox are those received before the closing.
\<close>

datatype task = Running | Finished | Raised error

datatype task_id = TwilioReceiver | StsSender | StsReceiver

datatype event = Resume task_id | CloseTwilio | CloseSts

text \<open>The exception of a send on a closed transport.\<close>

definition connection_closed :: error where
  "connection_closed = External ''ConnectionClosed''"

text \<open>
  A session holds the messages each transport still delivers, whether each transport is
  open, the state of \<^verbatim>\<open>twilio_receiver\<close> with the two live queues, the \<^verbatim>\<open>streamsid\<close> once
  \<^verbatim>\<open>sts_receiver\<close> has taken it, the rest of the message \<^verbatim>\<open>sts_receiver\<close> is handling (the
  effects still to come and how the handling ends), the status of each task, and what
  \<^verbatim>\<open>sts_sender\<close> and \<^verbatim>\<open>sts_receiver\<close> have done so far, in order.
\<close>

record session =
  twilio_inbox :: "string list"
  sts_inbox :: "ws_message list"
  twilio_open :: bool
  sts_open :: bool
  rs :: rstate
  taken_streamsid :: "json option"
  handling :: "(effect list \<times> (error + unit)) option"
  twilio_receiver_task :: task
  sts_sender_task :: task
  sts_receiver_task :: task
  wire :: "effect list"

definition session0 :: "string list \<Rightarrow> ws_message list \<Rightarrow> session" where
  "session0 tin sin =
     \<lparr>twilio_inbox = tin, sts_inbox = sin, twilio_open = True, sts_open = True,
      rs = rstate0, taken_streamsid = None, handling = None,
      twilio_receiver_task = Running, sts_sender_task = Running,
      sts_receiver_task = Running, wire = []\<rparr>"

text \<open>
  One iteration of \<^verbatim>\<open>async for message in twilio_ws.iter_text()\<close>: the body has no
  \<^verbatim>\<open>await\<close>. With no message to read the task waits, and returns once the transport is
  closed.
\<close>

definition twilio_receiver_turn :: "env \<Rightarrow> session \<Rightarrow> session" where
  "twilio_receiver_turn e s =
     (if twilio_receiver_task s \<noteq> Running then s
      else case twilio_inbox s of
             [] \<Rightarrow> if twilio_open s then s else s\<lparr>twilio_receiver_task := Finished\<rparr>
           | m # ms \<Rightarrow>
              (case twilio_step e m (rs s) of
                 (Continue, r) \<Rightarrow> s\<lparr>twilio_inbox := ms, rs := r\<rparr>
               | (Break, r) \<Rightarrow> s\<lparr>twilio_inbox := ms, rs := r, twilio_receiver_task := Finished\<rparr>))"

text \<open>
  \<^verbatim>\<open>while True: chunk = await audio_queue.get(); await sts_ws.send(chunk)\<close>: the task waits
  on an empty queue; the send raises on a closed transport. There is no other way out of
  the loop.
\<close>

definition sts_sender_turn :: "session \<Rightarrow> session" where
  "sts_sender_turn s =
     (if sts_sender_task s \<noteq> Running then s
      else case audio_queue (rs s) of
             [] \<Rightarrow> s
           | chunk # q \<Rightarrow>
               if sts_open s
               then s\<lparr>rs := (rs s)\<lparr>audio_queue := q\<rparr>,
                      wire := wire s @ [StsSend (StsBinary chunk)]\<rparr>
               else s\<lparr>rs := (rs s)\<lparr>audio_queue := q\<rparr>,
                      sts_sender_task := Raised connection_closed\<rparr>)"

text \<open>
  The effects at which the handler of an agent message suspends: the two sends and the
  embeddings request (made through \<^verbatim>\<open>asyncio.to_thread\<close>). \<^verbatim>\<open>index.query\<close> and \<^verbatim>\<open>print\<close>
  are synchronous calls. A send is delivered when its transport is open.
\<close>

fun awaited :: "effect \<Rightarrow> bool" where
  "awaited (TwilioSendText _) = True"
| "awaited (StsSend _) = True"
| "awaited (EmbeddingsCreate _) = True"
| "awaited _ = False"

fun deliverable :: "session \<Rightarrow> effect \<Rightarrow> bool" where
  "deliverable s (TwilioSendText _) = twilio_open s"
| "deliverable s (StsSend _) = sts_open s"
| "deliverable s _ = True"

text \<open>
  Resuming the handler: it runs to its next \<^verbatim>\<open>await\<close>, to its end, or to a send that raises;
  no \<^verbatim>\<open>try\<close> of \<^verbatim>\<open>sts_receiver\<close> or \<^verbatim>\<open>handle_text_message\<close> encloses a send.
\<close>

fun resume_handler :: "effect list \<Rightarrow> error + unit \<Rightarrow> session \<Rightarrow> session" where
  "resume_handler [] (Inl err) s = s\<lparr>handling := None, sts_receiver_task := Raised err\<rparr>"
| "resume_handler [] (Inr _) s = s\<lparr>handling := None\<rparr>"
| "resume_handler (fx # rest) r s =
     (if \<not> deliverable s fx
      then s\<lparr>handling := None, sts_receiver_task := Raised connection_closed\<rparr>
      else if awaited fx then s\<lparr>wire := wire s @ [fx], handling := Some (rest, r)\<rparr>
      else resume_handler rest r (s\<lparr>wire := wire s @ [fx]\<rparr>))"

text \<open>
  \<^verbatim>\<open>sts_receiver\<close>: it waits for the \<^verbatim>\<open>streamsid\<close>, then handles the agent messages one by
  one, \<^verbatim>\<open>sts_receiver_step\<close> giving the effects of a message and how its handling ends.
  With no message to read it waits, and returns once the transport is closed.
\<close>

definition sts_receiver_turn :: "env \<Rightarrow> session \<Rightarrow> session" where
  "sts_receiver_turn e s =
     (if sts_receiver_task s \<noteq> Running then s
      else case taken_streamsid s of
             None \<Rightarrow>
               (case streamsid_queue (rs s) of
                  [] \<Rightarrow> s
                | sid # q \<Rightarrow> s\<lparr>rs := (rs s)\<lparr>streamsid_queue := q\<rparr>, taken_streamsid := Some sid\<rparr>)
           | Some sid \<Rightarrow>
               (case handling s of
                  Some (fxs, r) \<Rightarrow> resume_handler fxs r s
                | None \<Rightarrow>
                   (case sts_inbox s of
                      [] \<Rightarrow> if sts_open s then s else s\<lparr>sts_receiver_task := Finished\<rparr>
                    | m # ms \<Rightarrow>
                       (case sts_receiver_step e sid m of
                          (fxs, r) \<Rightarrow> resume_handler fxs r (s\<lparr>sts_inbox := ms\<rparr>)))))"

fun turn :: "env \<Rightarrow> task_id \<Rightarrow> session \<Rightarrow> session" where
  "turn e TwilioReceiver s = twilio_receiver_turn e s"
| "turn e StsSender s = sts_sender_turn s"
| "turn e StsReceiver s = sts_receiver_turn e s"

fun occur :: "env \<Rightarrow> event \<Rightarrow> session \<Rightarrow> session" where
  "occur e (Resume t) s = turn e t s"
| "occur e CloseTwilio s = s\<lparr>twilio_open := False\<rparr>"
| "occur e CloseSts s = s\<lparr>sts_open := False\<rparr>"

fun run :: "env \<Rightarrow> event list \<Rightarrow> session \<Rightarrow> session" where
  "run e [] s = s"
| "run e (ev # evs) s = run e evs (occur e ev s)"

text \<open>The audio frames sent to the agent, and a handler with no such frame still to send.\<close>

fun sent_frames :: "effect list \<Rightarrow> bytes list" where
  "sent_frames [] = []"
| "sent_frames (StsSend (StsBinary f) # fx) = f # sent_frames fx"
| "sent_frames (_ # fx) = sent_frames fx"

definition no_frames_pending :: "session \<Rightarrow> bool" where
  "no_frames_pending s =
     (case handling s of None \<Rightarrow> True | Some (fxs, r) \<Rightarrow> sent_frames fxs = [])"

section \<open>Inbound events\<close>

text \<open>
  The event a telephony message denotes, read the way the \<^verbatim>\<open>try\<close> block reads it:
  \<^verbatim>\<open>start\<close> with its \<^verbatim>\<open>streamSid\<close>, \<^verbatim>\<open>media\<close> with its decoded payload, \<^verbatim>\<open>stop\<close>, any other
  event name, or the exception the reads raise.
\<close>

datatype inbound = SessionStart json | MediaChunk bytes | SessionStop | OtherEvent

definition parse_inbound :: "env \<Rightarrow> string \<Rightarrow> error + inbound" where
  "parse_inbound e message =
     (case json_loads e message of
        None \<Rightarrow> Inl JSONDecodeError
      | Some data \<Rightarrow>
         (case subscript data ''event'' of
            Inl err \<Rightarrow> Inl err
          | Inr event \<Rightarrow>
             if event = JStr ''start'' then
               (case subscript data ''start'' of
                  Inl err \<Rightarrow> Inl err
                | Inr start \<Rightarrow>
                   (case subscript start ''streamSid'' of
                      Inl err \<Rightarrow> Inl err
                    | Inr sid \<Rightarrow> Inr (SessionStart sid)))
             else if event = JStr ''media'' then
               (case subscript data ''media'' of
                  Inl err \<Rightarrow> Inl err
                | Inr media \<Rightarrow>
                   (case subscript media ''payload'' of
                      Inl err \<Rightarrow> Inl err
                    | Inr payload \<Rightarrow>
                       (case decode_payload e payload of
                          Inl err \<Rightarrow> Inl err
                        | Inr chunk \<Rightarrow> Inr (MediaChunk chunk))))
             else if event = JStr ''stop'' then Inr SessionStop
             else Inr OtherEvent))"

text \<open>What one iteration does to the state, by the event it reads.\<close>

fun apply_inbound :: "error + inbound \<Rightarrow> rstate \<Rightarrow> ctl \<times> rstate" where
  "apply_inbound (Inr (SessionStart sid)) s =
     (Continue, drain (s\<lparr>streamsid_queue := streamsid_queue s @ [sid]\<rparr>))"
| "apply_inbound (Inr (MediaChunk c)) s = (Continue, drain (s\<lparr>inbuffer := inbuffer s @ c\<rparr>))"
| "apply_inbound (Inr SessionStop) s =
     (Break, s\<lparr>printed := printed s @ [Print [PStr ''Twilio STOP'']]\<rparr>)"
| "apply_inbound (Inr OtherEvent) s = (Continue, drain s)"
| "apply_inbound (Inl err) s =
     (Break, s\<lparr>printed := printed s @ [Print [PStr ''Twilio error:'', PErr err]]\<rparr>)"

fun chunk_of :: "inbound \<Rightarrow> bytes" where
  "chunk_of (MediaChunk c) = c"
| "chunk_of _ = []"

fun sids_of :: "inbound list \<Rightarrow> json list" where
  "sids_of [] = []"
| "sids_of (SessionStart sid # evs) = sid # sids_of evs"
| "sids_of (_ # evs) = sids_of evs"

definition framed :: "rstate \<Rightarrow> bool" where
  "framed s \<longleftrightarrow> (\<forall>f \<in> set (audio_queue s). length f = BUFFER_SIZE) \<and>
                length (inbuffer s) < BUFFER_SIZE"

section \<open>Reading an effect trace\<close>

text \<open>
  A send to the telephony transport, a call of the knowledge retriever (the embeddings
  request or the index query) and a response injection (a JSON text sent to the agent
  transport), as they appear in the trace of a handler.
\<close>

fun is_twilio_send :: "effect \<Rightarrow> bool" where
  "is_twilio_send (TwilioSendText _) = True"
| "is_twilio_send _ = False"

fun is_retrieval :: "effect \<Rightarrow> bool" where
  "is_retrieval (EmbeddingsCreate _) = True"
| "is_retrieval (IndexQuery _ _) = True"
| "is_retrieval _ = False"

fun is_injection :: "effect \<Rightarrow> bool" where
  "is_injection (StsSend (StsText _)) = True"
| "is_injection _ = False"

text \<open>
  A message is finalized when \<^verbatim>\<open>_extract_transcript_from_deepgram\<close> returns a non-empty
  transcript with a true flag. The first alternative decides the flag when the transcript
  is read from the \<^verbatim>\<open>alternatives\<close> list and that alternative carries a truthy
  \<^verbatim>\<open>final\<close> or \<^verbatim>\<open>is_final\<close>.
\<close>

definition finalized :: "json \<Rightarrow> bool" where
  "finalized decoded =
     (case extract_transcript_from_deepgram decoded of
        Inl _ \<Rightarrow> False
      | Inr (transcript, is_final, _) \<Rightarrow> is_final \<and> transcript \<noteq> [])"

definition first_alternative_final :: "(string \<times> json) list \<Rightarrow> bool" where
  "first_alternative_final d \<longleftrightarrow>
     \<not> truthy (py_or (py_or (dict_get d ''transcript'') (dict_get d ''text'')) (JStr [])) \<and>
     (case map_of d ''alternatives'' of
        Some (JArr (JObj a # _)) \<Rightarrow> truthy (py_or (dict_get a ''final'') (dict_get a ''is_final''))
      | _ \<Rightarrow> False)"

section \<open>Matches and snippets\<close>

text \<open>
  A match carries a snippet when its metadata contains an \<^verbatim>\<open>answer\<close> key; the snippets of
  a query result are the answers of those matches, in rank order. \<open>join_with\<close> is the
  separator-join of strings.
\<close>

definition has_answer :: "match \<Rightarrow> bool" where
  "has_answer m = (case metadata m of None \<Rightarrow> False | Some md \<Rightarrow> has_key md ''answer'')"

definition answer_of :: "match \<Rightarrow> json" where
  "answer_of m = (case metadata m of None \<Rightarrow> JNull | Some md \<Rightarrow> dict_get md ''answer'')"

definition matched_answers :: "match list \<Rightarrow> json list" where
  "matched_answers ms = map answer_of (filter has_answer ms)"

fun join_with :: "string \<Rightarrow> string list \<Rightarrow> string" where
  "join_with sep [] = []"
| "join_with sep [s] = s"
| "join_with sep (s # t # ts) = s @ sep @ join_with sep (t # ts)"

section \<open>A sample session\<close>

text \<open>
  Concrete collaborators for the examples: five telephony messages, the base64 text of
  1200 zero bytes and of 2000 bytes \<open>0xFF\<close>, an index with no match.
\<close>

definition payload_1200 :: string where
  "payload_1200 = replicate 1600 (CHR ''A'')"

definition payload_2000 :: string where
  "payload_2000 = replicate 2664 (CHR ''/'') @ ''//8=''"

definition chunk_1200 :: bytes where
  "chunk_1200 = replicate 1200 0"

definition chunk_2000 :: bytes where
  "chunk_2000 = replicate 2000 255"

definition demo_messages :: "(string \<times> json) list" where
  "demo_messages =
    [(''start A'', JObj [(''event'', JStr ''start''), (''start'', JObj [(''streamSid'', JStr ''A'')])]),
     (''start B'', JObj [(''event'', JStr ''start''), (''start'', JObj [(''streamSid'', JStr ''B'')])]),
     (''media 1200'', JObj [(''event'', JStr ''media''), (''media'', JObj [(''payload'', JStr payload_1200)])]),
     (''media 2000'', JObj [(''event'', JStr ''media''), (''media'', JObj [(''payload'', JStr payload_2000)])]),
     (''stop'', JObj [(''event'', JStr ''stop'')])]"

definition demo_env :: env where
  "demo_env =
     \<lparr>json_loads = map_of demo_messages,
      b64decode = (\<lambda>p. if p = payload_2000 then Some chunk_2000
                        else if p = payload_1200 then Some chunk_1200 else None),
      b64encode = (\<lambda>b. []),
      embeddings_create = (\<lambda>q. Inr []),
      index_query = (\<lambda>v k. Inr [])\<rparr>"

text \<open>
  An embeddings endpoint that is down, and four agent control events: a barge-in, a partial
  transcript, a final transcript, and a transcript nested under \<^verbatim>\<open>alternatives\<close> whose
  first alternative is marked final while the top-level \<^verbatim>\<open>is_final\<close> is false.
\<close>

definition failing_env :: env where
  "failing_env = demo_env\<lparr>embeddings_create := (\<lambda>q. Inl (External ''embeddings unavailable''))\<rparr>"


definition partial_event :: "(string \<times> json) list" where
  "partial_event = [(''transcript'', JStr ''hello''), (''is_final'', JBool False)]"

definition final_event :: "(string \<times> json) list" where
  "final_event =
     [(''transcript'', JStr ''hello''), (''is_final'', JBool True), (''response_id'', JStr ''r1'')]"

definition alternative_event :: "(string \<times> json) list" where
  "alternative_event =
     [(''is_final'', JBool False),
      (''alternatives'', JArr [JObj [(''transcript'', JStr ''hello''), (''final'', JBool True)]])]"

text \<open>
  Four matches, two of them with an answer, and an index that returns the first
  \<^verbatim>\<open>top_k\<close> of a ranked list.
\<close>

definition course_a :: match where
  "course_a = \<lparr>match_id = ''m1'', metadata = Some [(''answer'', JStr ''Course A info'')]\<rparr>"

definition course_b :: match where
  "course_b = \<lparr>match_id = ''m2'', metadata = Some [(''answer'', JStr ''Course B info'')]\<rparr>"

definition bare_match :: match where
  "bare_match = \<lparr>match_id = ''m3'', metadata = None\<rparr>"

definition question_only :: match where
  "question_only = \<lparr>match_id = ''m4'', metadata = Some [(''question'', JStr ''Fees?'')]\<rparr>"

definition indexed_env :: "match list \<Rightarrow> env" where
  "indexed_env ms = demo_env\<lparr>index_query := (\<lambda>v k. Inr (take k ms))\<rparr>"

text \<open>
  A call that streams 4000 bytes, stops, and has one more message in flight, while the
  agent still has a frame of speech to deliver; schedules that read up to the stop, that
  stop in mid-stream, and that follow the stop; the sessions they lead to, with the agent
  transport closed after or before the queued frame is sent. An agent that sends a final
  transcript during the call.
\<close>

definition stop_session :: session where
  "stop_session =
     session0 [''start A'', ''media 2000'', ''media 2000'', ''stop'', ''media 1200'']
       [Binary chunk_1200]"

definition until_stop :: "event list" where
  "until_stop =
     [Resume TwilioReceiver, Resume TwilioReceiver, Resume TwilioReceiver, Resume TwilioReceiver]"

definition before_stop :: "event list" where
  "before_stop =
     [Resume TwilioReceiver, Resume TwilioReceiver, Resume TwilioReceiver, Resume StsReceiver]"

definition after_stop :: "event list" where
  "after_stop =
     [Resume StsSender, Resume StsReceiver, Resume TwilioReceiver, Resume StsReceiver,
      CloseSts, Resume StsReceiver, Resume StsSender]"

definition stopped_session :: session where
  "stopped_session =
     run demo_env after_stop
       (occur demo_env (Resume TwilioReceiver) (run demo_env before_stop stop_session))"

definition dropped_session :: session where
  "dropped_session =
     run demo_env [CloseSts, Resume StsSender]
       (occur demo_env (Resume TwilioReceiver) (run demo_env before_stop stop_session))"

definition agent_env :: env where
  "agent_env =
     demo_env\<lparr>json_loads :=
       (\<lambda>m. if m = ''final'' then Some (JObj final_event) else json_loads demo_env m)\<rparr>"

definition talking_session :: session where
  "talking_session = session0 [''start A'', ''media 2000'', ''media 2000''] [Text ''final'']"

section \<open>Properties of twilio\_receiver\<close>

lemma twilio_step_parse: "twilio_step e m s = apply_inbound (parse_inbound e m) s"
  unfolding twilio_step_def twilio_try_def parse_inbound_def
  by (simp split: option.split sum.split)

lemma drain_step:
  "BUFFER_SIZE \<le> length (inbuffer s) \<Longrightarrow>
   drain s = drain (s\<lparr>audio_queue := audio_queue s @ [take BUFFER_SIZE (inbuffer s)],
                      inbuffer := drop BUFFER_SIZE (inbuffer s)\<rparr>)"
  by (subst drain.simps) simp

lemma drain_stop: "\<not> BUFFER_SIZE \<le> length (inbuffer s) \<Longrightarrow> drain s = s"
  by (subst drain.simps) simp

lemma drain_concat:
  "concat (audio_queue (drain s)) @ inbuffer (drain s) = concat (audio_queue s) @ inbuffer s"
proof (induction s rule: drain.induct)
  case (1 s)
  show ?case
  proof (cases "BUFFER_SIZE \<le> length (inbuffer s)")
    case True
    show ?thesis unfolding drain_step [OF True] using "1" [OF True] by simp
  next
    case False
    show ?thesis unfolding drain_stop [OF False] by (rule refl)
  qed
qed

lemma drain_frames:
  "\<forall>f \<in> set (audio_queue s). length f = BUFFER_SIZE \<Longrightarrow>
   \<forall>f \<in> set (audio_queue (drain s)). length f = BUFFER_SIZE"
proof (induction s rule: drain.induct)
  case (1 s)
  show ?case
  proof (cases "BUFFER_SIZE \<le> length (inbuffer s)")
    case True
    show ?thesis unfolding drain_step [OF True]
      using "1.prems" True by (intro "1.IH" [OF True]) simp
  next
    case False
    show ?thesis unfolding drain_stop [OF False] by (rule "1.prems")
  qed
qed

lemma drain_short: "length (inbuffer (drain s)) < BUFFER_SIZE"
proof (induction s rule: drain.induct)
  case (1 s)
  show ?case
  proof (cases "BUFFER_SIZE \<le> length (inbuffer s)")
    case True
    show ?thesis unfolding drain_step [OF True] by (rule "1" [OF True])
  next
    case False
    then show ?thesis unfolding drain_stop [OF False] by simp
  qed
qed

lemma drain_others:
  "streamsid_queue (drain s) = streamsid_queue s \<and> printed (drain s) = printed s"
proof (induction s rule: drain.induct)
  case (1 s)
  show ?case
  proof (cases "BUFFER_SIZE \<le> length (inbuffer s)")
    case True
    show ?thesis unfolding drain_step [OF True] using "1" [OF True] by simp
  next
    case False
    show ?thesis unfolding drain_stop [OF False] by simp
  qed
qed

lemma framed_drain:
  "\<forall>f \<in> set (audio_queue s). length f = BUFFER_SIZE \<Longrightarrow> framed (drain s)"
  by (simp add: framed_def drain_frames drain_short)

lemma apply_inbound_continue:
  assumes "ev \<noteq> SessionStop" and "framed s"
  obtains s' where "apply_inbound (Inr ev) s = (Continue, s')"
    and "framed s'"
    and "concat (audio_queue s') @ inbuffer s' = concat (audio_queue s) @ inbuffer s @ chunk_of ev"
    and "streamsid_queue s' = streamsid_queue s @ sids_of [ev]"
proof (cases ev)
  case (SessionStart sid)
  show ?thesis
  proof (rule that)
    show "apply_inbound (Inr ev) s = (Continue, drain (s\<lparr>streamsid_queue := streamsid_queue s @ [sid]\<rparr>))"
      by (simp add: SessionStart)
    show "framed (drain (s\<lparr>streamsid_queue := streamsid_queue s @ [sid]\<rparr>))"
      using assms(2) by (intro framed_drain) (simp add: framed_def)
    show "concat (audio_queue (drain (s\<lparr>streamsid_queue := streamsid_queue s @ [sid]\<rparr>))) @
          inbuffer (drain (s\<lparr>streamsid_queue := streamsid_queue s @ [sid]\<rparr>)) =
          concat (audio_queue s) @ inbuffer s @ chunk_of ev"
      by (simp add: drain_concat SessionStart)
    show "streamsid_queue (drain (s\<lparr>streamsid_queue := streamsid_queue s @ [sid]\<rparr>)) =
          streamsid_queue s @ sids_of [ev]"
      by (simp add: drain_others SessionStart)
  qed
next
  case (MediaChunk c)
  show ?thesis
  proof (rule that)
    show "apply_inbound (Inr ev) s = (Continue, drain (s\<lparr>inbuffer := inbuffer s @ c\<rparr>))"
      by (simp add: MediaChunk)
    show "framed (drain (s\<lparr>inbuffer := inbuffer s @ c\<rparr>))"
      using assms(2) by (intro framed_drain) (simp add: framed_def)
    show "concat (audio_queue (drain (s\<lparr>inbuffer := inbuffer s @ c\<rparr>))) @
          inbuffer (drain (s\<lparr>inbuffer := inbuffer s @ c\<rparr>)) =
          concat (audio_queue s) @ inbuffer s @ chunk_of ev"
      by (simp add: drain_concat MediaChunk)
    show "streamsid_queue (drain (s\<lparr>inbuffer := inbuffer s @ c\<rparr>)) =
          streamsid_queue s @ sids_of [ev]"
      by (simp add: drain_others MediaChunk)
  qed
next
  case SessionStop
  with assms(1) show ?thesis by simp
next
  case OtherEvent
  show ?thesis
  proof (rule that)
    show "apply_inbound (Inr ev) s = (Continue, drain s)"
      by (simp add: OtherEvent)
    show "framed (drain s)"
      using assms(2) by (intro framed_drain) (simp add: framed_def)
    show "concat (audio_queue (drain s)) @ inbuffer (drain s) =
          concat (audio_queue s) @ inbuffer s @ chunk_of ev"
      by (simp add: drain_concat OtherEvent)
    show "streamsid_queue (drain s) = streamsid_queue s @ sids_of [ev]"
      by (simp add: drain_others OtherEvent)
  qed
qed

lemma sids_of_Cons: "sids_of (ev # evs) = sids_of [ev] @ sids_of evs"
  by (cases ev) simp_all

lemma twilio_receiver_events:
  assumes "map (parse_inbound e) ms = map Inr evs" and "SessionStop \<notin> set evs" and "framed s"
  shows "framed (twilio_receiver e ms s) \<and>
         concat (audio_queue (twilio_receiver e ms s)) @ inbuffer (twilio_receiver e ms s) =
           concat (audio_queue s) @ inbuffer s @ concat (map chunk_of evs) \<and>
         streamsid_queue (twilio_receiver e ms s) = streamsid_queue s @ sids_of evs"
  using assms
proof (induction ms arbitrary: s evs)
  case Nil
  then show ?case by simp
next
  case (Cons m ms)
  from Cons.prems(1) obtain ev evs' where evs: "evs = ev # evs'"
    and ev: "parse_inbound e m = Inr ev" and rest: "map (parse_inbound e) ms = map Inr evs'"
    by (cases evs) auto
  from Cons.prems(2) evs have nostop: "ev \<noteq> SessionStop" "SessionStop \<notin> set evs'"
    by auto
  from apply_inbound_continue [OF nostop(1) Cons.prems(3)]
  obtain s' where step: "apply_inbound (Inr ev) s = (Continue, s')" and fr: "framed s'"
    and cc: "concat (audio_queue s') @ inbuffer s' = concat (audio_queue s) @ inbuffer s @ chunk_of ev"
    and sq: "streamsid_queue s' = streamsid_queue s @ sids_of [ev]"
    by blast
  have run: "twilio_receiver e (m # ms) s = twilio_receiver e ms s'"
    by (simp add: twilio_step_parse ev step)
  from Cons.IH [OF rest nostop(2) fr] cc sq
  show ?case
    unfolding run evs by (simp add: sids_of_Cons [of ev evs'])
qed

lemma length_concat_uniform:
  "\<forall>f \<in> set q. length f = n \<Longrightarrow> length (concat q) = n * length q"
  by (induction q) simp_all

lemma nth_concat_uniform:
  "\<forall>f \<in> set q. length f = n \<Longrightarrow> i < length q \<Longrightarrow> take n (drop (i * n) (concat q)) = q ! i"
proof (induction q arbitrary: i)
  case Nil
  then show ?case by simp
next
  case (Cons f q)
  show ?case
  proof (cases i)
    case 0
    with Cons.prems show ?thesis by simp
  next
    case (Suc j)
    with Cons.prems Cons.IH [of j] show ?thesis by simp
  qed
qed

lemma payloads_differ: "payload_1200 \<noteq> payload_2000"
proof
  assume "payload_1200 = payload_2000"
  then have "length payload_1200 = length payload_2000" by simp
  then show False by (simp add: payload_1200_def payload_2000_def)
qed

lemma demo_parse:
  "parse_inbound demo_env ''start A'' = Inr (SessionStart (JStr ''A''))"
  "parse_inbound demo_env ''start B'' = Inr (SessionStart (JStr ''B''))"
  "parse_inbound demo_env ''media 1200'' = Inr (MediaChunk chunk_1200)"
  "parse_inbound demo_env ''media 2000'' = Inr (MediaChunk chunk_2000)"
  "parse_inbound demo_env ''stop'' = Inr SessionStop"
  by (simp_all add: parse_inbound_def demo_env_def demo_messages_def payloads_differ)

text \<open>
  Claim C1. When every message is a media event and the decoded chunks total a multiple
  of the frame size, \<^verbatim>\<open>twilio_receiver\<close> enqueues exactly total / 3200 frames, the i-th
  being bytes \<open>3200 i\<close> to \<open>3200 (i + 1)\<close> of the input, each 3200 bytes long, and
  leaves \<^verbatim>\<open>inbuffer\<close> empty.
\<close>

theorem frames_exact:
  assumes "map (parse_inbound e) ms = map (Inr \<circ> MediaChunk) chunks"
    and "length (concat chunks) mod BUFFER_SIZE = 0"
  shows "length (audio_queue (twilio_receiver e ms rstate0)) = length (concat chunks) div BUFFER_SIZE \<and>
         (\<forall>i < length (audio_queue (twilio_receiver e ms rstate0)).
            audio_queue (twilio_receiver e ms rstate0) ! i =
              take BUFFER_SIZE (drop (i * BUFFER_SIZE) (concat chunks)) \<and>
            length (audio_queue (twilio_receiver e ms rstate0) ! i) = BUFFER_SIZE) \<and>
         inbuffer (twilio_receiver e ms rstate0) = []"
proof -
  let ?s = "twilio_receiver e ms rstate0"
  have m: "map (parse_inbound e) ms = map Inr (map MediaChunk chunks)"
    using assms(1) by simp
  have ns: "SessionStop \<notin> set (map MediaChunk chunks)" by auto
  have f0: "framed rstate0" by (simp add: framed_def rstate0_def BUFFER_SIZE_def)
  have ch: "map (chunk_of \<circ> MediaChunk) chunks = chunks"
    by (induction chunks) simp_all
  from twilio_receiver_events [OF m ns f0]
  have fr: "framed ?s" and cc: "concat (audio_queue ?s) @ inbuffer ?s = concat chunks"
    by (simp_all add: ch rstate0_def)
  from fr have uni: "\<forall>f \<in> set (audio_queue ?s). length f = BUFFER_SIZE"
    and short: "length (inbuffer ?s) < BUFFER_SIZE"
    by (simp_all add: framed_def)
  have len: "length (concat chunks) = BUFFER_SIZE * length (audio_queue ?s) + length (inbuffer ?s)"
    using cc length_concat_uniform [OF uni] by (metis length_append)
  with assms(2) have "length (inbuffer ?s) mod BUFFER_SIZE = 0" by simp
  with short have e0: "inbuffer ?s = []" by simp
  with len have n: "length (audio_queue ?s) = length (concat chunks) div BUFFER_SIZE"
    using short by simp
  from cc e0 have whole: "concat (audio_queue ?s) = concat chunks" by simp
  have "\<forall>i < length (audio_queue ?s).
          audio_queue ?s ! i = take BUFFER_SIZE (drop (i * BUFFER_SIZE) (concat chunks)) \<and>
          length (audio_queue ?s ! i) = BUFFER_SIZE"
    using nth_concat_uniform [OF uni] uni whole by (metis nth_mem)
  with n e0 show ?thesis by blast
qed

theorem frames_exact_witness:
  "length (audio_queue (twilio_receiver demo_env [''media 1200'', ''media 2000''] rstate0)) = 1 \<and>
   audio_queue (twilio_receiver demo_env [''media 1200'', ''media 2000''] rstate0) ! 0 =
     chunk_1200 @ chunk_2000 \<and>
   inbuffer (twilio_receiver demo_env [''media 1200'', ''media 2000''] rstate0) = []"
proof -
  have h1: "map (parse_inbound demo_env) [''media 1200'', ''media 2000''] =
            map (Inr \<circ> MediaChunk) [chunk_1200, chunk_2000]"
    by (simp add: demo_parse)
  have h2: "length (concat [chunk_1200, chunk_2000]) mod BUFFER_SIZE = 0"
    by (simp add: chunk_1200_def chunk_2000_def BUFFER_SIZE_def)
  show ?thesis
    using frames_exact [OF h1 h2]
    by (simp add: chunk_1200_def chunk_2000_def BUFFER_SIZE_def)
qed

text \<open>
  Claim C2. Whatever the lengths of the decoded chunks, the enqueued frames followed by
  what is left in \<^verbatim>\<open>inbuffer\<close> are the input bytes, in order.
\<close>

theorem frames_lossless:
  assumes "map (parse_inbound e) ms = map (Inr \<circ> MediaChunk) chunks"
  shows "concat (audio_queue (twilio_receiver e ms rstate0)) @
         inbuffer (twilio_receiver e ms rstate0) = concat chunks"
proof -
  have m: "map (parse_inbound e) ms = map Inr (map MediaChunk chunks)"
    using assms by simp
  have ns: "SessionStop \<notin> set (map MediaChunk chunks)" by auto
  have f0: "framed rstate0" by (simp add: framed_def rstate0_def BUFFER_SIZE_def)
  have ch: "map (chunk_of \<circ> MediaChunk) chunks = chunks"
    by (induction chunks) simp_all
  from twilio_receiver_events [OF m ns f0] show ?thesis
    by (simp add: ch rstate0_def)
qed

theorem frames_lossless_witness:
  "concat (audio_queue (twilio_receiver demo_env [''media 2000'', ''media 2000''] rstate0)) @
   inbuffer (twilio_receiver demo_env [''media 2000'', ''media 2000''] rstate0) =
   replicate 4000 255"
proof -
  have h: "map (parse_inbound demo_env) [''media 2000'', ''media 2000''] =
           map (Inr \<circ> MediaChunk) [chunk_2000, chunk_2000]"
    by (simp add: demo_parse)
  show ?thesis
    using frames_lossless [OF h] by (simp add: chunk_2000_def flip: replicate_add)
qed

text \<open>
  Claim C9 says the session identifier is published once and later start events do not
  publish again. The code calls \<^verbatim>\<open>put_nowait\<close> at every start event: two starts leave
  two identifiers queued.
\<close>

theorem second_start_published:
  "streamsid_queue (twilio_receiver demo_env [''start A'', ''start B''] rstate0) =
     [JStr ''A'', JStr ''B'']"
proof -
  have h: "map (parse_inbound demo_env) [''start A'', ''start B''] =
           map Inr [SessionStart (JStr ''A''), SessionStart (JStr ''B'')]"
    by (simp add: demo_parse)
  have f0: "framed rstate0" by (simp add: framed_def rstate0_def BUFFER_SIZE_def)
  from twilio_receiver_events [OF h _ f0] show ?thesis
    by (simp add: rstate0_def)
qed

text \<open>
  Claim C9, amended. Over every sequence of well-formed events with no stop, each start
  event publishes its identifier: the queue receives the identifiers of all the start
  events, in arrival order.
\<close>

theorem every_start_published:
  assumes "map (parse_inbound e) ms = map Inr evs" and "SessionStop \<notin> set evs"
  shows "streamsid_queue (twilio_receiver e ms rstate0) = sids_of evs"
proof -
  have f0: "framed rstate0" by (simp add: framed_def rstate0_def BUFFER_SIZE_def)
  from twilio_receiver_events [OF assms f0] show ?thesis
    by (simp add: rstate0_def)
qed

theorem every_start_published_witness:
  "streamsid_queue
     (twilio_receiver demo_env [''start A'', ''media 1200'', ''start B'', ''media 2000''] rstate0) =
   [JStr ''A'', JStr ''B'']"
proof -
  have h: "map (parse_inbound demo_env) [''start A'', ''media 1200'', ''start B'', ''media 2000''] =
           map Inr [SessionStart (JStr ''A''), MediaChunk chunk_1200,
                    SessionStart (JStr ''B''), MediaChunk chunk_2000]"
    by (simp add: demo_parse)
  have n: "SessionStop \<notin> set [SessionStart (JStr ''A''), MediaChunk chunk_1200,
                    SessionStart (JStr ''B''), MediaChunk chunk_2000]"
    by simp
  show ?thesis using every_start_published [OF h n] by simp
qed

section \<open>Properties of str.strip and of the handlers\<close>

lemma strip_plain: "leading_ws s = None \<Longrightarrow> trailing_ws s = None \<Longrightarrow> strip s = s"
  unfolding strip_def by (subst lstrip.simps, simp, subst rstrip.simps, simp)

lemma strip_hello: "strip ''hello'' = ''hello''"
  by (rule strip_plain) (simp_all add: leading_ws_def trailing_ws_def whitespace_def suffix_to_prefix)

lemma rag_retrieve_fx:
  "\<exists>rest. fst (rag_retrieve e q) = EmbeddingsCreate q # rest \<and>
     filter is_twilio_send (fst (rag_retrieve e q)) = [] \<and>
     filter is_injection (fst (rag_retrieve e q)) = []"
  by (simp add: rag_retrieve_def Let_def split: sum.split)

lemma retrieve_context_fx:
  "\<exists>rest. fst (retrieve_context e q) = EmbeddingsCreate q # rest \<and>
     filter is_twilio_send (fst (retrieve_context e q)) = [] \<and>
     filter is_injection (fst (retrieve_context e q)) = []"
proof -
  obtain rest where r: "fst (rag_retrieve e q) = EmbeddingsCreate q # rest"
    and t: "filter is_twilio_send (fst (rag_retrieve e q)) = []"
    and i: "filter is_injection (fst (rag_retrieve e q)) = []"
    using rag_retrieve_fx by blast
  show ?thesis
  proof (cases "rag_retrieve e q")
    case (Pair fx res)
    with r t i show ?thesis
      by (cases res) (simp_all add: retrieve_context_def)
  qed
qed

lemma retrieve_context_failed:
  "snd (rag_retrieve e q) = Inl err \<Longrightarrow> snd (retrieve_context e q) = sentinel"
  by (cases "rag_retrieve e q") (simp add: retrieve_context_def)

lemma handle_barge_in_obj:
  "handle_barge_in (JObj d) sid =
     (if dict_get d ''type'' = JStr ''UserStartedSpeaking''
      then [TwilioSendText (clear_message sid)] else [], Inr ())"
  by (simp add: handle_barge_in_def)

lemma handle_text_message_not_obj:
  "(\<And>d. decoded \<noteq> JObj d) \<Longrightarrow> handle_text_message e decoded sid = ([], Inl AttributeError)"
  by (cases decoded) (auto simp: handle_text_message_def handle_barge_in_def)

lemma handle_text_message_error:
  "extract_transcript_from_deepgram (JObj d) = Inl err \<Longrightarrow>
   handle_text_message e (JObj d) sid = (fst (handle_barge_in (JObj d) sid), Inl err)"
  by (simp add: handle_text_message_def handle_barge_in_obj)

lemma handle_text_message_empty:
  "extract_transcript_from_deepgram (JObj d) = Inr ([], fin, rid) \<Longrightarrow>
   handle_text_message e (JObj d) sid = (fst (handle_barge_in (JObj d) sid), Inr ())"
  by (simp add: handle_text_message_def handle_barge_in_obj)

lemma handle_text_message_partial:
  "extract_transcript_from_deepgram (JObj d) = Inr (t, False, rid) \<Longrightarrow> t \<noteq> [] \<Longrightarrow>
   handle_text_message e (JObj d) sid =
     (fst (handle_barge_in (JObj d) sid) @ [Print [PStr ''Partial:'', PStr t]], Inr ())"
  by (simp add: handle_text_message_def handle_barge_in_obj)

lemma handle_text_message_final:
  "extract_transcript_from_deepgram (JObj d) = Inr (t, True, rid) \<Longrightarrow> t \<noteq> [] \<Longrightarrow>
   handle_text_message e (JObj d) sid =
     (fst (handle_barge_in (JObj d) sid) @ [Print [PStr ''Final transcript:'', PStr t]] @
      fst (retrieve_context e t) @
      [Print [PStr ''Sending response.create to Deepgram...''],
       StsSend (StsText (response_create rid (instructions t (snd (retrieve_context e t)))))],
      Inr ())"
  by (cases "retrieve_context e t") (simp add: handle_text_message_def handle_barge_in_obj)

lemma extract_result_flag:
  "extract_result tr fl rid = Inr (t, b, r) \<Longrightarrow> b = truthy fl"
  by (cases tr) simp_all

lemma alternatives_block_flag:
  "alternatives_block alts fl rid = Inr (t, b, r) \<Longrightarrow>
   \<exists>a rest. alts = JArr (JObj a # rest) \<and>
     b = (truthy (py_or (dict_get a ''final'') (dict_get a ''is_final'')) \<or> truthy fl)"
  by (cases "(alts, fl, rid)" rule: alternatives_block.cases)
     (auto simp: Let_def dest: extract_result_flag split: if_splits)

lemma not_finalized:
  assumes f: "\<not> truthy (dict_get d ''is_final'')" and a: "\<not> first_alternative_final d"
  shows "\<not> finalized (JObj d)"
proof (cases "extract_transcript_from_deepgram (JObj d)")
  case (Inl err)
  then show ?thesis by (simp add: finalized_def)
next
  case (Inr r)
  obtain t b rid where r: "r = (t, b, rid)" by (cases r)
  let ?fl = "if has_key d ''is_final'' then dict_get d ''is_final'' else JBool False"
  have fl: "\<not> truthy ?fl" using f by simp
  have "\<not> b"
  proof (cases "\<not> truthy (py_or (py_or (dict_get d ''transcript'') (dict_get d ''text'')) (JStr []))
                \<and> has_key d ''alternatives''
                \<and> truthy (dict_get_default d ''alternatives'' (JArr []))")
    case True
    then have "alternatives_block (dict_get_default d ''alternatives'' (JArr [])) ?fl
                 (py_or (dict_get d ''response_id'') (dict_get d ''id'')) = Inr (t, b, rid)"
      using Inr r by (simp add: extract_transcript_from_deepgram_def Let_def)
    then obtain al rest where
      alts: "dict_get_default d ''alternatives'' (JArr []) = JArr (JObj al # rest)"
      and b: "b = (truthy (py_or (dict_get al ''final'') (dict_get al ''is_final'')) \<or> truthy ?fl)"
      using alternatives_block_flag by blast
    from True alts have "map_of d ''alternatives'' = Some (JArr (JObj al # rest))"
      by (auto simp: dict_get_default_def has_key_def split: option.splits)
    with a True have "\<not> truthy (py_or (dict_get al ''final'') (dict_get al ''is_final''))"
      by (simp add: first_alternative_final_def)
    with b fl show ?thesis by simp
  next
    case False
    then have "extract_result (py_or (py_or (dict_get d ''transcript'') (dict_get d ''text'')) (JStr []))
                 ?fl (py_or (dict_get d ''response_id'') (dict_get d ''id'')) = Inr (t, b, rid)"
      using Inr r by (auto simp: extract_transcript_from_deepgram_def Let_def split: if_splits)
    then have "b = truthy ?fl" by (rule extract_result_flag)
    with fl show ?thesis by simp
  qed
  with Inr r show ?thesis by (simp add: finalized_def)
qed

lemma quiet_unless_finalized:
  assumes "\<not> finalized decoded"
  shows "filter is_retrieval (fst (handle_text_message e decoded sid)) = [] \<and>
         filter is_injection (fst (handle_text_message e decoded sid)) = []"
proof (cases decoded)
  case (JObj d)
  show ?thesis
  proof (cases "extract_transcript_from_deepgram (JObj d)")
    case (Inl err)
    then show ?thesis unfolding JObj
      by (simp add: handle_text_message_error handle_barge_in_obj)
  next
    case (Inr r)
    obtain t b rid where r: "r = (t, b, rid)" by (cases r)
    from assms Inr r JObj have nb: "\<not> b \<or> t = []" by (simp add: finalized_def)
    show ?thesis
    proof (cases "t = []")
      case True
      with Inr r show ?thesis unfolding JObj
        by (simp add: handle_text_message_empty handle_barge_in_obj)
    next
      case False
      with nb have "\<not> b" by simp
      with Inr r False show ?thesis unfolding JObj
        by (simp add: handle_text_message_partial handle_barge_in_obj)
    qed
  qed
qed (simp_all add: handle_text_message_not_obj)

lemma not_suffix_last: "w \<noteq> [] \<Longrightarrow> last w \<noteq> x \<Longrightarrow> \<not> suffix w (s @ [x])"
  by (auto simp: suffix_def) (metis last_snoc last_appendR)

lemma leading_ws_newline: "leading_ws (CHR 0x0A # s) = Some [CHR 0x0A]"
  by (simp add: leading_ws_def whitespace_def)

lemma leading_ws_Y: "leading_ws (CHR ''Y'' # s) = None"
  by (simp add: leading_ws_def whitespace_def)

lemma trailing_ws_newline: "trailing_ws (s @ [CHR 0x0A]) = Some [CHR 0x0A]"
  by (simp add: trailing_ws_def whitespace_def not_suffix_last)

lemma trailing_ws_dot: "trailing_ws (s @ [CHR ''.'']) = None"
  by (simp add: trailing_ws_def whitespace_def not_suffix_last)

lemma lstrip_newline_Y: "lstrip (CHR 0x0A # CHR ''Y'' # s) = CHR ''Y'' # s"
  by (simp add: lstrip.simps [of "CHR 0x0A # CHR ''Y'' # s"] lstrip.simps [of "CHR ''Y'' # s"]
        leading_ws_newline leading_ws_Y)

lemma rstrip_dot_newlines:
  "rstrip (s @ [CHR ''.'', CHR 0x0A, CHR 0x0A]) = s @ [CHR ''.'']"
proof -
  have a: "s @ [CHR ''.'', CHR 0x0A, CHR 0x0A] = (s @ [CHR ''.'', CHR 0x0A]) @ [CHR 0x0A]"
    by simp
  have b: "s @ [CHR ''.'', CHR 0x0A] = (s @ [CHR ''.'']) @ [CHR 0x0A]"
    by simp
  have "rstrip ((s @ [CHR ''.'', CHR 0x0A]) @ [CHR 0x0A]) = rstrip (s @ [CHR ''.'', CHR 0x0A])"
    by (subst rstrip.simps) (simp only: trailing_ws_newline, simp)
  also have "\<dots> = rstrip ((s @ [CHR ''.'']) @ [CHR 0x0A])"
    by (simp only: b)
  also have "\<dots> = rstrip (s @ [CHR ''.''])"
    by (subst rstrip.simps) (simp only: trailing_ws_newline, simp)
  also have "\<dots> = s @ [CHR ''.'']"
    by (subst rstrip.simps) (simp only: trailing_ws_dot, simp)
  finally show ?thesis by (simp only: a)
qed


lemma prompt_head_shape: "\<exists>r. prompt_head = CHR 0x0A # CHR ''Y'' # r"
  by (simp add: prompt_head_def nl_def)

lemma prompt_tail_shape: "\<exists>r. prompt_tail = r @ [CHR ''.'', CHR 0x0A, CHR 0x0A]"
proof -
  have "prompt_tail = butlast (butlast (butlast prompt_tail)) @ [CHR ''.'', CHR 0x0A, CHR 0x0A]"
    by (simp add: prompt_tail_def nl_def rsquo_def butlast_append)
  then show ?thesis by blast
qed

lemma strip_instructions:
  "\<exists>h t. strip (instructions transcript context) =
     h @ transcript @ prompt_mid @ context @ t"
proof -
  obtain r where h: "prompt_head = CHR 0x0A # CHR ''Y'' # r"
    using prompt_head_shape by blast
  obtain u where t: "prompt_tail = u @ [CHR ''.'', CHR 0x0A, CHR 0x0A]"
    using prompt_tail_shape by blast
  have "lstrip (instructions transcript context) =
        CHR ''Y'' # r @ transcript @ prompt_mid @ context @ prompt_tail"
    by (simp add: instructions_def h lstrip_newline_Y)
  also have "\<dots> = (CHR ''Y'' # r @ transcript @ prompt_mid @ context @ u) @
                    [CHR ''.'', CHR 0x0A, CHR 0x0A]"
    by (simp add: t)
  finally have "strip (instructions transcript context) =
        (CHR ''Y'' # r @ transcript @ prompt_mid @ context @ u) @ [CHR ''.'']"
    by (simp only: strip_def rstrip_dot_newlines)
  then have "strip (instructions transcript context) =
        (CHR ''Y'' # r) @ transcript @ prompt_mid @ context @ (u @ [CHR ''.''])"
    by simp
  then show ?thesis by blast
qed

lemma sublist_context: "sublist context (strip (instructions transcript context))"
proof -
  obtain h t where "strip (instructions transcript context) =
      h @ transcript @ prompt_mid @ context @ t"
    using strip_instructions by blast
  then have "strip (instructions transcript context) = (h @ transcript @ prompt_mid) @ context @ t"
    by simp
  then show ?thesis by (simp only: sublist_appendI)
qed


lemma extract_partial_event:
  "extract_transcript_from_deepgram (JObj partial_event) = Inr (''hello'', False, JNull)"
  by (simp add: extract_transcript_from_deepgram_def partial_event_def dict_get_def has_key_def
        py_or_def strip_hello)

lemma extract_final_event:
  "extract_transcript_from_deepgram (JObj final_event) = Inr (''hello'', True, JStr ''r1'')"
  by (simp add: extract_transcript_from_deepgram_def final_event_def dict_get_def has_key_def
        py_or_def strip_hello)

lemma extract_alternative_event:
  "extract_transcript_from_deepgram (JObj alternative_event) = Inr (''hello'', True, JNull)"
  by (simp add: extract_transcript_from_deepgram_def alternative_event_def dict_get_def
        dict_get_default_def has_key_def py_or_def strip_hello)

lemma retrieve_context_demo: "retrieve_context demo_env q = ([EmbeddingsCreate q, IndexQuery [] 3], sentinel)"
  by (simp add: retrieve_context_def rag_retrieve_def demo_env_def)

lemma rag_retrieve_failing:
  "rag_retrieve failing_env q = ([EmbeddingsCreate q], Inl (External ''embeddings unavailable''))"
  by (simp add: rag_retrieve_def failing_env_def)

section \<open>Properties of the turn controller\<close>



text \<open>
  Claim C4 says that an event carrying \<^verbatim>\<open>is_final = false\<close> never reaches the retriever
  or sends an injection. The extraction overrides the flag when the transcript comes from
  the \<^verbatim>\<open>alternatives\<close> list and the first alternative is marked final: this event carries
  \<^verbatim>\<open>is_final = false\<close>, and handling it calls the embeddings endpoint, queries the index
  and sends \<^verbatim>\<open>response.create\<close>.
\<close>

theorem nested_final_retrieves:
  "map_of alternative_event ''is_final'' = Some (JBool False) \<and>
   fst (handle_text_message demo_env (JObj alternative_event) (JStr ''A'')) =
     [Print [PStr ''Final transcript:'', PStr ''hello''],
      EmbeddingsCreate ''hello'', IndexQuery [] 3,
      Print [PStr ''Sending response.create to Deepgram...''],
      StsSend (StsText (response_create JNull (instructions ''hello'' sentinel)))]"
proof -
  have "dict_get alternative_event ''type'' \<noteq> JStr ''UserStartedSpeaking''"
    by (simp add: alternative_event_def dict_get_def)
  then show ?thesis
    by (simp add: handle_text_message_final [OF extract_alternative_event]
          handle_barge_in_obj retrieve_context_demo) (simp add: alternative_event_def)
qed

text \<open>
  Claim C4, amended. For every decoded agent control event whose \<^verbatim>\<open>is_final\<close> is false
  (or falsy, or absent) and whose first alternative, when the transcript is read from the
  \<^verbatim>\<open>alternatives\<close> list, is not marked \<^verbatim>\<open>final\<close> or \<^verbatim>\<open>is_final\<close>, the message is not
  finalized and handling it neither calls the retriever nor sends an injection; and for
  every message, only a finalized non-empty transcript triggers retrieval and injection.
\<close>

theorem partial_never_retrieves:
  assumes "\<not> truthy (dict_get d ''is_final'')" and "\<not> first_alternative_final d"
  shows "\<not> finalized (JObj d) \<and>
         filter is_retrieval (fst (handle_text_message e (JObj d) sid)) = [] \<and>
         filter is_injection (fst (handle_text_message e (JObj d) sid)) = [] \<and>
         (\<forall>decoded. \<not> finalized decoded \<longrightarrow>
            filter is_retrieval (fst (handle_text_message e decoded sid)) = [] \<and>
            filter is_injection (fst (handle_text_message e decoded sid)) = [])"
  using not_finalized [OF assms] quiet_unless_finalized by blast

theorem partial_never_retrieves_witness:
  "\<not> finalized (JObj partial_event) \<and>
   filter is_retrieval (fst (handle_text_message demo_env (JObj partial_event) (JStr ''A''))) = [] \<and>
   filter is_injection (fst (handle_text_message demo_env (JObj partial_event) (JStr ''A''))) = []"
  using partial_never_retrieves [of partial_event demo_env "JStr ''A''"]
  by (simp add: partial_event_def dict_get_def first_alternative_final_def py_or_def)

text \<open>
  Claim C5. For every finalized non-empty transcript on which \<^verbatim>\<open>rag_retrieve\<close> raises,
  the context is the sentinel \<^verbatim>\<open>No relevant context.\<close>, the handler returns normally,
  and exactly one injection is sent, as the last effect: a \<^verbatim>\<open>response.create\<close> carrying
  the response id of the message, whose instruction text contains the sentinel.
\<close>

theorem retrieval_failure_falls_back:
  assumes "extract_transcript_from_deepgram (JObj d) = Inr (t, True, rid)" and "t \<noteq> []"
    and "snd (rag_retrieve e t) = Inl err"
  shows "\<exists>payload text.
           snd (retrieve_context e t) = sentinel \<and>
           snd (handle_text_message e (JObj d) sid) = Inr () \<and>
           filter is_injection (fst (handle_text_message e (JObj d) sid)) = [StsSend (StsText payload)] \<and>
           last (fst (handle_text_message e (JObj d) sid)) = StsSend (StsText payload) \<and>
           subscript payload ''type'' = Inr (JStr ''response.create'') \<and>
           subscript payload ''response_id'' = Inr rid \<and>
           subscript payload ''instructions'' = Inr (JStr text) \<and>
           sublist sentinel text"
proof -
  let ?payload = "response_create rid (instructions t sentinel)"
  have c: "snd (retrieve_context e t) = sentinel"
    using assms(3) by (rule retrieve_context_failed)
  have i: "filter is_injection (fst (retrieve_context e t)) = []"
    using retrieve_context_fx by blast
  have h: "handle_text_message e (JObj d) sid =
     (fst (handle_barge_in (JObj d) sid) @ [Print [PStr ''Final transcript:'', PStr t]] @
      fst (retrieve_context e t) @
      [Print [PStr ''Sending response.create to Deepgram...''], StsSend (StsText ?payload)],
      Inr ())"
    using handle_text_message_final [OF assms(1,2)] c by simp
  have 1: "snd (handle_text_message e (JObj d) sid) = Inr ()"
    by (simp add: h)
  have 2: "filter is_injection (fst (handle_text_message e (JObj d) sid)) = [StsSend (StsText ?payload)]"
    by (simp add: h i handle_barge_in_obj)
  have 3: "last (fst (handle_text_message e (JObj d) sid)) = StsSend (StsText ?payload)"
    by (simp add: h)
  have 4: "subscript ?payload ''type'' = Inr (JStr ''response.create'')"
    and 5: "subscript ?payload ''response_id'' = Inr rid"
    and 6: "subscript ?payload ''instructions'' = Inr (JStr (strip (instructions t sentinel)))"
    by (simp_all add: response_create_def)
  have 7: "sublist sentinel (strip (instructions t sentinel))"
    by (rule sublist_context)
  from c 1 2 3 4 5 6 7 show ?thesis by blast
qed

theorem retrieval_failure_falls_back_witness:
  "\<exists>payload text.
     snd (retrieve_context failing_env ''hello'') = sentinel \<and>
     snd (handle_text_message failing_env (JObj final_event) (JStr ''A'')) = Inr () \<and>
     filter is_injection (fst (handle_text_message failing_env (JObj final_event) (JStr ''A''))) =
       [StsSend (StsText payload)] \<and>
     last (fst (handle_text_message failing_env (JObj final_event) (JStr ''A''))) =
       StsSend (StsText payload) \<and>
     subscript payload ''type'' = Inr (JStr ''response.create'') \<and>
     subscript payload ''response_id'' = Inr (JStr ''r1'') \<and>
     subscript payload ''instructions'' = Inr (JStr text) \<and>
     sublist sentinel text"
  using retrieval_failure_falls_back [OF extract_final_event, of failing_env _ "JStr ''A''"]
  by (simp add: rag_retrieve_failing)

section \<open>Properties of the retrieval loop and of the receiver loop\<close>

lemma collect_answers_matched: "collect_answers acc ms = acc @ matched_answers ms"
proof (induction ms arbitrary: acc)
  case Nil
  show ?case by (simp add: matched_answers_def)
next
  case (Cons m ms)
  show ?case
  proof (cases "metadata m")
    case None
    then show ?thesis using Cons [of acc]
      by (simp add: matched_answers_def has_answer_def)
  next
    case (Some md)
    show ?thesis
    proof (cases "has_key md ''answer''")
      case True
      then have "md \<noteq> []" by (auto simp: has_key_def)
      with True Some show ?thesis using Cons [of "acc @ [dict_get md ''answer'']"]
        by (simp add: matched_answers_def has_answer_def answer_of_def)
    next
      case False
      with Some show ?thesis using Cons [of acc]
        by (simp add: matched_answers_def has_answer_def)
    qed
  qed
qed

lemma str_join_strings:
  "str_join sep xs = Inr r \<Longrightarrow> \<exists>ss. xs = map JStr ss \<and> r = join_with sep ss"
proof (induction sep xs arbitrary: r rule: str_join.induct)
  case (1 sep)
  then show ?case by simp
next
  case (2 sep s)
  then have "[JStr s] = map JStr [s] \<and> r = join_with sep [s]" by simp
  then show ?case by (rule exI [of _ "[s]"])
next
  case (3 sep s x xs)
  from "3.prems" obtain r' where r': "str_join sep (x # xs) = Inr r'" and r: "r = s @ sep @ r'"
    by (auto split: sum.splits)
  from "3.IH" [OF r'] obtain ss where ss: "x # xs = map JStr ss" and j: "r' = join_with sep ss"
    by (elim exE conjE)
  from ss obtain t ts where t: "ss = t # ts" by (cases ss) auto
  have "JStr s # x # xs = map JStr (s # ss) \<and> r = join_with sep (s # ss)"
    using ss j r t by simp
  then show ?case by (rule exI [of _ "s # ss"])
qed simp_all

lemma rag_retrieve_matches:
  assumes "embeddings_create e q = Inr vec" and "index_query e vec 3 = Inr ms"
  shows "rag_retrieve e q =
           ([EmbeddingsCreate q, IndexQuery vec 3],
            if matched_answers ms = [] then Inr sentinel else str_join nl (matched_answers ms))"
  using assms by (simp add: rag_retrieve_def collect_answers_matched)

lemma rag_retrieve_succeeds:
  assumes "rag_retrieve e q = (fx, Inr context)"
  shows "\<exists>vec ms. embeddings_create e q = Inr vec \<and> index_query e vec 3 = Inr ms"
  using assms by (auto simp: rag_retrieve_def split: sum.splits)

lemma sts_receiver_append:
  "sts_receiver e sid before = (fx, Inr ()) \<Longrightarrow>
   sts_receiver e sid (before @ ms) =
     (fx @ fst (sts_receiver e sid ms), snd (sts_receiver e sid ms))"
proof (induction before arbitrary: fx)
  case Nil
  then show ?case by simp
next
  case (Cons m before)
  obtain fx1 r1 where s1: "sts_receiver_step e sid m = (fx1, r1)" by (cases "sts_receiver_step e sid m")
  obtain fx2 r2 where s2: "sts_receiver e sid before = (fx2, r2)" by (cases "sts_receiver e sid before")
  from Cons.prems s1 s2 have r1: "r1 = Inr ()" and r2: "r2 = Inr ()" and fx: "fx = fx1 @ fx2"
    by (auto split: sum.splits)
  from Cons.IH [of fx2] s2 r2 have
    "sts_receiver e sid (before @ ms) =
       (fx2 @ fst (sts_receiver e sid ms), snd (sts_receiver e sid ms))" by simp
  with s1 r1 fx show ?case by simp
qed

section \<open>Properties of sts\_receiver\<close>

text \<open>
  Claim C7 says that an agent text message that is not JSON is logged and skipped, the
  loop going on with the next message. \<^verbatim>\<open>sts_receiver\<close> calls \<^verbatim>\<open>json.loads\<close> outside any
  \<^verbatim>\<open>try\<close>: on such a message followed by an audio frame nothing is printed, the loop ends
  with \<^verbatim>\<open>JSONDecodeError\<close> and the frame is never forwarded.
\<close>

theorem bad_json_stops_receiver:
  "json_loads demo_env ''not json'' = None \<and>
   sts_receiver demo_env (JStr ''A'') [Text ''not json'', Binary chunk_1200] =
     ([], Inl JSONDecodeError)"
  by (simp add: demo_env_def demo_messages_def)

text \<open>
  Claim C7, amended. For every agent-transport text message that fails to parse as JSON,
  the exception leaves \<^verbatim>\<open>sts_receiver\<close>: the effects are those of the messages handled
  before it, nothing is logged for it, the loop ends with \<^verbatim>\<open>JSONDecodeError\<close> and no later
  message is processed.
\<close>

theorem parse_failure_ends_receiver:
  assumes "json_loads e bad = None" and "sts_receiver e sid before = (fx, Inr ())"
  shows "sts_receiver e sid (before @ Text bad # later) = (fx, Inl JSONDecodeError)"
  using sts_receiver_append [OF assms(2), of "Text bad # later"] assms(1) by simp

theorem parse_failure_ends_receiver_witness:
  "sts_receiver demo_env (JStr ''A'') [Binary chunk_1200, Text ''not json'', Binary chunk_2000] =
     ([TwilioSendText (media_message demo_env (JStr ''A'') chunk_1200)], Inl JSONDecodeError)"
  using parse_failure_ends_receiver [of demo_env "''not json''" "JStr ''A''" "[Binary chunk_1200]"
      "[TwilioSendText (media_message demo_env (JStr ''A'') chunk_1200)]" "[Binary chunk_2000]"]
  by (simp add: demo_env_def demo_messages_def)

section \<open>Properties of rag\_retrieve\<close>

text \<open>
  Claim C8. For every query on which \<^verbatim>\<open>rag_retrieve\<close> returns, with an index that returns
  at most \<^verbatim>\<open>top_k = 3\<close> matches, the context is a single string: the newline-join of the
  snippets of the matches, at most three of them, and the sentinel
  \<^verbatim>\<open>No relevant context.\<close> when there is no snippet.
\<close>

theorem context_of_three_snippets:
  assumes "rag_retrieve e q = (fx, Inr context)"
    and "\<And>v ms. index_query e v 3 = Inr ms \<Longrightarrow> length ms \<le> 3"
  shows "\<exists>vec ms snippets.
           embeddings_create e q = Inr vec \<and> index_query e vec 3 = Inr ms \<and>
           matched_answers ms = map JStr snippets \<and> length snippets \<le> 3 \<and>
           context = (if snippets = [] then sentinel else join_with nl snippets)"
proof -
  obtain vec ms where v: "embeddings_create e q = Inr vec" and m: "index_query e vec 3 = Inr ms"
    using rag_retrieve_succeeds [OF assms(1)] by (elim exE conjE)
  have len: "length (matched_answers ms) \<le> 3"
  proof -
    have "length (matched_answers ms) \<le> length ms" by (simp add: matched_answers_def)
    also have "\<dots> \<le> 3" using assms(2) [OF m] .
    finally show ?thesis .
  qed
  have r: "(if matched_answers ms = [] then Inr sentinel else str_join nl (matched_answers ms)) =
        Inr context"
    using assms(1) rag_retrieve_matches [OF v m] by simp
  show ?thesis
  proof (cases "matched_answers ms = []")
    case True
    with r have "context = sentinel" by simp
    with True v m have "embeddings_create e q = Inr vec \<and> index_query e vec 3 = Inr ms \<and>
           matched_answers ms = map JStr [] \<and> length ([] :: string list) \<le> 3 \<and>
           context = (if ([] :: string list) = [] then sentinel else join_with nl [])" by simp
    then show ?thesis
      by (intro exI [of _ vec] exI [of _ ms] exI [of _ "[] :: string list"])
  next
    case False
    with r have "str_join nl (matched_answers ms) = Inr context" by simp
    then obtain ss where ss: "matched_answers ms = map JStr ss" and c: "context = join_with nl ss"
      by (auto dest: str_join_strings)
    from ss False have ne: "ss \<noteq> []" by auto
    from ss len have "length ss \<le> 3" by simp
    with v m ss c ne have "embeddings_create e q = Inr vec \<and> index_query e vec 3 = Inr ms \<and>
           matched_answers ms = map JStr ss \<and> length ss \<le> 3 \<and>
           context = (if ss = [] then sentinel else join_with nl ss)" by simp
    then show ?thesis
      by (intro exI [of _ vec] exI [of _ ms] exI [of _ ss])
  qed
qed

lemma rag_retrieve_courses:
  "rag_retrieve (indexed_env [course_a, bare_match, course_b, question_only]) ''fees'' =
     ([EmbeddingsCreate ''fees'', IndexQuery [] 3], Inr (''Course A info'' @ nl @ ''Course B info''))"
  by (simp add: rag_retrieve_def indexed_env_def demo_env_def course_a_def course_b_def
        bare_match_def question_only_def has_key_def dict_get_def)

theorem context_of_three_snippets_witness:
  "\<exists>vec ms snippets.
     embeddings_create (indexed_env [course_a, bare_match, course_b, question_only]) ''fees'' = Inr vec \<and>
     index_query (indexed_env [course_a, bare_match, course_b, question_only]) vec 3 = Inr ms \<and>
     matched_answers ms = map JStr snippets \<and> length snippets \<le> 3 \<and>
     ''Course A info'' @ nl @ ''Course B info'' =
       (if snippets = [] then sentinel else join_with nl snippets)"
  using context_of_three_snippets [OF rag_retrieve_courses]
  by (simp add: indexed_env_def)

text \<open>
  Claim C10. For every successful index query, \<^verbatim>\<open>rag_retrieve\<close> assembles the context
  from the answers of the matches whose metadata contains an \<^verbatim>\<open>answer\<close> key and from
  nothing else; when the query returns matches and none of them has that key, it returns
  the sentinel.
\<close>

theorem only_answer_matches_used:
  assumes "embeddings_create e q = Inr vec" and "index_query e vec 3 = Inr ms"
  shows "snd (rag_retrieve e q) =
           (if filter has_answer ms = [] then Inr sentinel
            else str_join nl (map answer_of (filter has_answer ms))) \<and>
         (ms \<noteq> [] \<and> list_all (\<lambda>m. \<not> has_answer m) ms \<longrightarrow> snd (rag_retrieve e q) = Inr sentinel)"
proof -
  have 1: "snd (rag_retrieve e q) =
           (if filter has_answer ms = [] then Inr sentinel
            else str_join nl (map answer_of (filter has_answer ms)))"
    using rag_retrieve_matches [OF assms] by (simp add: matched_answers_def)
  have "list_all (\<lambda>m. \<not> has_answer m) ms \<Longrightarrow> filter has_answer ms = []"
    by (induction ms) simp_all
  with 1 show ?thesis by simp
qed

theorem only_answer_matches_used_witness:
  "index_query (indexed_env [bare_match, question_only]) [] 3 = Inr [bare_match, question_only] \<and>
   snd (rag_retrieve (indexed_env [bare_match, question_only]) ''fees'') = Inr sentinel \<and>
   snd (rag_retrieve (indexed_env [question_only, course_b]) ''fees'') = Inr ''Course B info''"
  using only_answer_matches_used [of "indexed_env [bare_match, question_only]" "''fees''" "[]"
          "[bare_match, question_only]"]
        only_answer_matches_used [of "indexed_env [question_only, course_b]" "''fees''" "[]"
          "[question_only, course_b]"]
  by (simp add: indexed_env_def demo_env_def has_answer_def answer_of_def bare_match_def
        question_only_def course_b_def has_key_def dict_get_def)

section \<open>Properties of the session\<close>

lemma sent_frames_append: "sent_frames (a @ b) = sent_frames a @ sent_frames b"
  by (induction a rule: sent_frames.induct) simp_all

lemma sent_frames_rag_retrieve: "sent_frames (fst (rag_retrieve e q)) = []"
  by (simp add: rag_retrieve_def Let_def split: sum.split)

lemma sent_frames_retrieve_context: "sent_frames (fst (retrieve_context e q)) = []"
proof (cases "rag_retrieve e q")
  case (Pair fx res)
  with sent_frames_rag_retrieve [of e q] show ?thesis
    by (cases res) (simp_all add: retrieve_context_def sent_frames_append)
qed

lemma sent_frames_handle_text_message: "sent_frames (fst (handle_text_message e decoded sid)) = []"
proof (cases decoded)
  case (JObj d)
  show ?thesis
  proof (cases "extract_transcript_from_deepgram (JObj d)")
    case (Inl err)
    then show ?thesis unfolding JObj
      by (simp add: handle_text_message_error handle_barge_in_obj)
  next
    case (Inr r)
    obtain t b rid where r: "r = (t, b, rid)" by (cases r)
    show ?thesis
    proof (cases "t = []")
      case True
      with Inr r show ?thesis unfolding JObj
        by (simp add: handle_text_message_empty handle_barge_in_obj)
    next
      case False
      show ?thesis
      proof (cases b)
        case True
        with Inr r False show ?thesis unfolding JObj
          by (simp add: handle_text_message_final handle_barge_in_obj sent_frames_append
                sent_frames_retrieve_context)
      next
        case no: False
        with Inr r False show ?thesis unfolding JObj
          by (simp add: handle_text_message_partial handle_barge_in_obj sent_frames_append)
      qed
    qed
  qed
qed (simp_all add: handle_text_message_not_obj)

lemma sent_frames_sts_receiver_step: "sent_frames (fst (sts_receiver_step e sid m)) = []"
proof (cases m)
  case (Text message)
  show ?thesis
  proof (cases "json_loads e message")
    case None
    with Text show ?thesis by simp
  next
    case (Some decoded)
    with Text sent_frames_handle_text_message [of e decoded sid] show ?thesis
      by (cases "handle_text_message e decoded sid") simp
  qed
next
  case (Binary raw)
  then show ?thesis by simp
qed

lemma sent_frames_Cons:
  "sent_frames (fx # rest) = [] \<Longrightarrow> sent_frames [fx] = [] \<and> sent_frames rest = []"
  using sent_frames_append [of "[fx]" rest] by simp

text \<open>What a resumption of the handler leaves as it is.\<close>

lemma resume_handler_frame:
  "rs (resume_handler fxs r s) = rs s \<and>
   twilio_inbox (resume_handler fxs r s) = twilio_inbox s \<and>
   sts_inbox (resume_handler fxs r s) = sts_inbox s \<and>
   twilio_open (resume_handler fxs r s) = twilio_open s \<and>
   sts_open (resume_handler fxs r s) = sts_open s \<and>
   twilio_receiver_task (resume_handler fxs r s) = twilio_receiver_task s \<and>
   sts_sender_task (resume_handler fxs r s) = sts_sender_task s"
  by (induction fxs r s rule: resume_handler.induct) simp_all

lemma resume_handler_status:
  "sts_receiver_task s \<noteq> Finished \<Longrightarrow> sts_receiver_task (resume_handler fxs r s) \<noteq> Finished"
  by (induction fxs r s rule: resume_handler.induct) simp_all

lemma resume_handler_frames:
  "sent_frames fxs = [] \<Longrightarrow>
   sent_frames (wire (resume_handler fxs r s)) = sent_frames (wire s) \<and>
   no_frames_pending (resume_handler fxs r s)"
proof (induction fxs r s rule: resume_handler.induct)
  case (1 err s)
  show ?case by (simp add: no_frames_pending_def)
next
  case (2 u s)
  show ?case by (simp add: no_frames_pending_def)
next
  case (3 fx rest r s)
  from sent_frames_Cons [OF "3.prems"] have fx: "sent_frames [fx] = []" and rest: "sent_frames rest = []"
    by simp_all
  show ?case
  proof (cases "deliverable s fx")
    case False
    then show ?thesis by (simp add: no_frames_pending_def)
  next
    case True
    show ?thesis
    proof (cases "awaited fx")
      case aw: True
      with True fx rest show ?thesis
        by (simp add: no_frames_pending_def sent_frames_append)
    next
      case na: False
      from "3.IH" [OF _ na rest] True
      have "sent_frames (wire (resume_handler rest r (s\<lparr>wire := wire s @ [fx]\<rparr>))) =
              sent_frames (wire (s\<lparr>wire := wire s @ [fx]\<rparr>)) \<and>
            no_frames_pending (resume_handler rest r (s\<lparr>wire := wire s @ [fx]\<rparr>))"
        by simp
      with True na fx show ?thesis by (simp add: sent_frames_append)
    qed
  qed
qed


lemma sts_receiver_turn_frame:
  assumes "no_frames_pending s"
  shows "audio_queue (rs (sts_receiver_turn e s)) = audio_queue (rs s) \<and>
         twilio_inbox (sts_receiver_turn e s) = twilio_inbox s \<and>
         twilio_receiver_task (sts_receiver_turn e s) = twilio_receiver_task s \<and>
         sts_sender_task (sts_receiver_turn e s) = sts_sender_task s \<and>
         sts_open (sts_receiver_turn e s) = sts_open s \<and>
         sent_frames (wire (sts_receiver_turn e s)) = sent_frames (wire s) \<and>
         no_frames_pending (sts_receiver_turn e s)"
proof (cases "sts_receiver_task s = Running")
  case False
  with assms show ?thesis by (simp add: sts_receiver_turn_def)
next
  case True
  show ?thesis
  proof (cases "taken_streamsid s")
    case None
    with True assms show ?thesis
      by (simp add: sts_receiver_turn_def no_frames_pending_def split: list.split)
  next
    case (Some sid)
    show ?thesis
    proof (cases "handling s")
      case h: (Some pending)
      obtain fxs r where p: "pending = (fxs, r)" by (cases pending)
      from assms h p have "sent_frames fxs = []" by (simp add: no_frames_pending_def)
      from resume_handler_frames [OF this, of r s] resume_handler_frame [of fxs r s]
      show ?thesis using True Some h p by (simp add: sts_receiver_turn_def)
    next
      case h: None
      show ?thesis
      proof (cases "sts_inbox s")
        case Nil
        with True Some h assms show ?thesis
          by (simp add: sts_receiver_turn_def no_frames_pending_def)
      next
        case (Cons m ms)
        obtain fxs r where st: "sts_receiver_step e sid m = (fxs, r)"
          by (cases "sts_receiver_step e sid m")
        with sent_frames_sts_receiver_step [of e sid m] have "sent_frames fxs = []" by simp
        from resume_handler_frames [OF this, of r "s\<lparr>sts_inbox := ms\<rparr>"]
          resume_handler_frame [of fxs r "s\<lparr>sts_inbox := ms\<rparr>"]
        show ?thesis using True Some h Cons st by (simp add: sts_receiver_turn_def)
      qed
    qed
  qed
qed

lemma sts_receiver_turn_end:
  assumes "sts_receiver_task s = Finished \<longrightarrow> \<not> sts_open s \<and> sts_inbox s = []"
  shows "sts_receiver_task (sts_receiver_turn e s) = Finished \<longrightarrow>
         \<not> sts_open (sts_receiver_turn e s) \<and> sts_inbox (sts_receiver_turn e s) = []"
proof (cases "sts_receiver_task s = Running")
  case False
  with assms show ?thesis by (simp add: sts_receiver_turn_def)
next
  case True
  then have nf: "\<And>x. sts_receiver_task (s\<lparr>sts_inbox := x\<rparr>) \<noteq> Finished"
    and nf': "sts_receiver_task s \<noteq> Finished" by simp_all
  show ?thesis
  proof (cases "taken_streamsid s")
    case None
    with True show ?thesis by (simp add: sts_receiver_turn_def split: list.split)
  next
    case (Some sid)
    show ?thesis
    proof (cases "handling s")
      case h: (Some pending)
      obtain fxs r where p: "pending = (fxs, r)" by (cases pending)
      from resume_handler_status [OF nf', of fxs r] show ?thesis
        using True Some h p by (simp add: sts_receiver_turn_def)
    next
      case h: None
      show ?thesis
      proof (cases "sts_inbox s")
        case Nil
        with True Some h show ?thesis by (simp add: sts_receiver_turn_def)
      next
        case (Cons m ms)
        obtain fxs r where st: "sts_receiver_step e sid m = (fxs, r)"
          by (cases "sts_receiver_step e sid m")
        from resume_handler_status [OF nf [of ms], of fxs r] show ?thesis
          using True Some h Cons st by (simp add: sts_receiver_turn_def)
      qed
    qed
  qed
qed

lemma twilio_receiver_turn_over:
  "twilio_receiver_task s \<noteq> Running \<Longrightarrow> twilio_receiver_turn e s = s"
  by (simp add: twilio_receiver_turn_def)

lemma twilio_receiver_turn_others:
  "handling (twilio_receiver_turn e s) = handling s \<and>
   sts_receiver_task (twilio_receiver_turn e s) = sts_receiver_task s \<and>
   sts_open (twilio_receiver_turn e s) = sts_open s \<and>
   sts_inbox (twilio_receiver_turn e s) = sts_inbox s"
  by (simp add: twilio_receiver_turn_def split: list.split prod.split ctl.split)

lemma sts_sender_turn_others:
  "handling (sts_sender_turn s) = handling s \<and>
   sts_receiver_task (sts_sender_turn s) = sts_receiver_task s \<and>
   sts_open (sts_sender_turn s) = sts_open s \<and>
   sts_inbox (sts_sender_turn s) = sts_inbox s \<and>
   twilio_receiver_task (sts_sender_turn s) = twilio_receiver_task s \<and>
   twilio_inbox (sts_sender_turn s) = twilio_inbox s"
  by (simp add: sts_sender_turn_def split: list.split)

text \<open>Two facts of every reachable session.\<close>

lemma occur_sound:
  assumes "no_frames_pending s"
    and "sts_receiver_task s = Finished \<longrightarrow> \<not> sts_open s \<and> sts_inbox s = []"
  shows "no_frames_pending (occur e ev s) \<and>
         (sts_receiver_task (occur e ev s) = Finished \<longrightarrow>
            \<not> sts_open (occur e ev s) \<and> sts_inbox (occur e ev s) = [])"
proof (cases ev)
  case (Resume t)
  show ?thesis
  proof (cases t)
    case TwilioReceiver
    with Resume assms twilio_receiver_turn_others [of e s] show ?thesis
      by (simp add: no_frames_pending_def)
  next
    case StsSender
    with Resume assms sts_sender_turn_others [of s] show ?thesis
      by (simp add: no_frames_pending_def)
  next
    case StsReceiver
    with Resume sts_receiver_turn_frame [OF assms(1), of e] sts_receiver_turn_end [OF assms(2), of e]
    show ?thesis by simp
  qed
next
  case CloseTwilio
  with assms show ?thesis by (simp add: no_frames_pending_def)
next
  case CloseSts
  with assms show ?thesis by (simp add: no_frames_pending_def)
qed

lemma run_sound:
  assumes "no_frames_pending s"
    and "sts_receiver_task s = Finished \<longrightarrow> \<not> sts_open s \<and> sts_inbox s = []"
  shows "no_frames_pending (run e evs s) \<and>
         (sts_receiver_task (run e evs s) = Finished \<longrightarrow>
            \<not> sts_open (run e evs s) \<and> sts_inbox (run e evs s) = [])"
  using assms
proof (induction evs arbitrary: s)
  case Nil
  then show ?case by simp
next
  case (Cons ev evs)
  from occur_sound [OF Cons.prems, of e ev] Cons.IH [of "occur e ev s"] show ?case by simp
qed

lemma reachable_sound:
  "no_frames_pending (run e evs (session0 tin sin)) \<and>
   (sts_receiver_task (run e evs (session0 tin sin)) = Finished \<longrightarrow>
      \<not> sts_open (run e evs (session0 tin sin)) \<and> sts_inbox (run e evs (session0 tin sin)) = [])"
  by (rule run_sound) (simp_all add: session0_def no_frames_pending_def)

text \<open>After the reader has ended: the frames queued then are still queued, sent, or lost.\<close>

lemma occur_after_stop:
  assumes tr: "twilio_receiver_task s \<noteq> Running" and nf: "no_frames_pending s"
    and q: "Q = p @ audio_queue (rs s)"
    and st: "sts_sender_task s = Running \<and> sent_frames (wire s) = W @ p \<or>
             sts_sender_task s = Raised connection_closed \<and> \<not> sts_open s \<and> p \<noteq> [] \<and>
               sent_frames (wire s) = W @ butlast p"
  shows "twilio_receiver_task (occur e ev s) = twilio_receiver_task s \<and>
         twilio_inbox (occur e ev s) = twilio_inbox s \<and>
         (\<exists>p'. Q = p' @ audio_queue (rs (occur e ev s)) \<and>
            (sts_sender_task (occur e ev s) = Running \<and>
               sent_frames (wire (occur e ev s)) = W @ p' \<or>
             sts_sender_task (occur e ev s) = Raised connection_closed \<and>
               \<not> sts_open (occur e ev s) \<and> p' \<noteq> [] \<and>
               sent_frames (wire (occur e ev s)) = W @ butlast p'))"
proof -
  have keep: "audio_queue (rs s') = audio_queue (rs s) \<Longrightarrow>
      sts_sender_task s' = sts_sender_task s \<Longrightarrow>
      sent_frames (wire s') = sent_frames (wire s) \<Longrightarrow>
      (sts_open s \<longrightarrow> sts_sender_task s = Running \<or> sts_open s') \<Longrightarrow>
      (\<not> sts_open s \<longrightarrow> \<not> sts_open s') \<Longrightarrow>
      \<exists>p'. Q = p' @ audio_queue (rs s') \<and>
        (sts_sender_task s' = Running \<and> sent_frames (wire s') = W @ p' \<or>
         sts_sender_task s' = Raised connection_closed \<and> \<not> sts_open s' \<and> p' \<noteq> [] \<and>
           sent_frames (wire s') = W @ butlast p')" for s'
    using q st by (intro exI [of _ p]) auto
  show ?thesis
  proof (cases ev)
    case (Resume t)
    show ?thesis
    proof (cases t)
      case TwilioReceiver
      with Resume tr keep [of s] show ?thesis by (simp add: twilio_receiver_turn_over)
    next
      case StsReceiver
      from sts_receiver_turn_frame [OF nf, of e] keep [of "sts_receiver_turn e s"]
      show ?thesis using Resume StsReceiver by simp
    next
      case StsSender
      show ?thesis
      proof (cases "sts_sender_task s = Running")
        case False
        then have "sts_sender_turn s = s" by (simp add: sts_sender_turn_def)
        with keep [of s] Resume StsSender show ?thesis by simp
      next
        case True
        with st have sent: "sent_frames (wire s) = W @ p" by auto
        show ?thesis
        proof (cases "audio_queue (rs s)")
          case Nil
          with True have "sts_sender_turn s = s" by (simp add: sts_sender_turn_def)
          with keep [of s] Resume StsSender show ?thesis by simp
        next
          case (Cons chunk rest)
          show ?thesis
          proof (cases "sts_open s")
            case op: True
            have "Q = (p @ [chunk]) @ audio_queue (rs (sts_sender_turn s)) \<and>
                  sts_sender_task (sts_sender_turn s) = Running \<and>
                  sent_frames (wire (sts_sender_turn s)) = W @ (p @ [chunk])"
              using True Cons op q sent by (simp add: sts_sender_turn_def sent_frames_append)
            then have "\<exists>p'. Q = p' @ audio_queue (rs (sts_sender_turn s)) \<and>
                (sts_sender_task (sts_sender_turn s) = Running \<and>
                   sent_frames (wire (sts_sender_turn s)) = W @ p' \<or>
                 sts_sender_task (sts_sender_turn s) = Raised connection_closed \<and>
                   \<not> sts_open (sts_sender_turn s) \<and> p' \<noteq> [] \<and>
                   sent_frames (wire (sts_sender_turn s)) = W @ butlast p')"
              by (intro exI [of _ "p @ [chunk]"]) simp
            with sts_sender_turn_others [of s] Resume StsSender show ?thesis by simp
          next
            case cl: False
            have "Q = (p @ [chunk]) @ audio_queue (rs (sts_sender_turn s)) \<and>
                  sts_sender_task (sts_sender_turn s) = Raised connection_closed \<and>
                  \<not> sts_open (sts_sender_turn s) \<and> p @ [chunk] \<noteq> [] \<and>
                  sent_frames (wire (sts_sender_turn s)) = W @ butlast (p @ [chunk])"
              using True Cons cl q sent by (simp add: sts_sender_turn_def)
            then have "\<exists>p'. Q = p' @ audio_queue (rs (sts_sender_turn s)) \<and>
                (sts_sender_task (sts_sender_turn s) = Running \<and>
                   sent_frames (wire (sts_sender_turn s)) = W @ p' \<or>
                 sts_sender_task (sts_sender_turn s) = Raised connection_closed \<and>
                   \<not> sts_open (sts_sender_turn s) \<and> p' \<noteq> [] \<and>
                   sent_frames (wire (sts_sender_turn s)) = W @ butlast p')"
              by (intro exI [of _ "p @ [chunk]"]) simp
            with sts_sender_turn_others [of s] Resume StsSender show ?thesis by simp
          qed
        qed
      qed
    qed
  next
    case CloseTwilio
    with keep [of "s\<lparr>twilio_open := False\<rparr>"] show ?thesis by simp
  next
    case CloseSts
    have "\<exists>p'. Q = p' @ audio_queue (rs (s\<lparr>sts_open := False\<rparr>)) \<and>
        (sts_sender_task (s\<lparr>sts_open := False\<rparr>) = Running \<and>
           sent_frames (wire (s\<lparr>sts_open := False\<rparr>)) = W @ p' \<or>
         sts_sender_task (s\<lparr>sts_open := False\<rparr>) = Raised connection_closed \<and>
           \<not> sts_open (s\<lparr>sts_open := False\<rparr>) \<and> p' \<noteq> [] \<and>
           sent_frames (wire (s\<lparr>sts_open := False\<rparr>)) = W @ butlast p')"
      using q st by (intro exI [of _ p]) auto
    with CloseSts show ?thesis by simp
  qed
qed


lemma run_after_stop:
  assumes "twilio_receiver_task s \<noteq> Running" and "no_frames_pending s"
    and "sts_receiver_task s = Finished \<longrightarrow> \<not> sts_open s \<and> sts_inbox s = []"
    and "Q = p @ audio_queue (rs s)"
    and "sts_sender_task s = Running \<and> sent_frames (wire s) = W @ p \<or>
         sts_sender_task s = Raised connection_closed \<and> \<not> sts_open s \<and> p \<noteq> [] \<and>
           sent_frames (wire s) = W @ butlast p"
  shows "twilio_receiver_task (run e evs s) = twilio_receiver_task s \<and>
         twilio_inbox (run e evs s) = twilio_inbox s \<and>
         (\<exists>p'. Q = p' @ audio_queue (rs (run e evs s)) \<and>
            (sts_sender_task (run e evs s) = Running \<and>
               sent_frames (wire (run e evs s)) = W @ p' \<or>
             sts_sender_task (run e evs s) = Raised connection_closed \<and>
               \<not> sts_open (run e evs s) \<and> p' \<noteq> [] \<and>
               sent_frames (wire (run e evs s)) = W @ butlast p'))"
  using assms
proof (induction evs arbitrary: s p)
  case Nil
  have "\<exists>p'. Q = p' @ audio_queue (rs s) \<and>
            (sts_sender_task s = Running \<and> sent_frames (wire s) = W @ p' \<or>
             sts_sender_task s = Raised connection_closed \<and> \<not> sts_open s \<and> p' \<noteq> [] \<and>
               sent_frames (wire s) = W @ butlast p')"
    using Nil.prems(4,5) by (intro exI [of _ p]) simp
  then show ?case by simp
next
  case (Cons ev evs)
  let ?s = "occur e ev s"
  from occur_after_stop [OF Cons.prems(1,2,4,5), of e ev]
  obtain p' where tr: "twilio_receiver_task ?s = twilio_receiver_task s"
    and inbox: "twilio_inbox ?s = twilio_inbox s"
    and q: "Q = p' @ audio_queue (rs ?s)"
    and st: "sts_sender_task ?s = Running \<and> sent_frames (wire ?s) = W @ p' \<or>
             sts_sender_task ?s = Raised connection_closed \<and> \<not> sts_open ?s \<and> p' \<noteq> [] \<and>
               sent_frames (wire ?s) = W @ butlast p'"
    by (elim exE conjE)
  from occur_sound [OF Cons.prems(2,3), of e ev]
  have nf: "no_frames_pending ?s"
    and fin: "sts_receiver_task ?s = Finished \<longrightarrow> \<not> sts_open ?s \<and> sts_inbox ?s = []"
    by simp_all
  from tr Cons.prems(1) have tr': "twilio_receiver_task ?s \<noteq> Running" by simp
  from Cons.IH [OF tr' nf fin q st] tr inbox show ?case by simp
qed

lemma run_append: "run e (a @ b) s = run e b (run e a s)"
  by (induction a arbitrary: s) simp_all

lemma mid_stream:
  "run demo_env before_stop stop_session =
     \<lparr>twilio_inbox = [''stop'', ''media 1200''], sts_inbox = [Binary chunk_1200],
      twilio_open = True, sts_open = True,
      rs = \<lparr>inbuffer = replicate 800 255, audio_queue = [replicate 3200 255],
            streamsid_queue = [], printed = []\<rparr>,
      taken_streamsid = Some (JStr ''A''), handling = None,
      twilio_receiver_task = Running, sts_sender_task = Running,
      sts_receiver_task = Running, wire = []\<rparr>"
  by (simp add: before_stop_def stop_session_def session0_def rstate0_def twilio_receiver_turn_def
        sts_receiver_turn_def twilio_step_parse demo_parse drain_step drain_stop BUFFER_SIZE_def
        chunk_2000_def flip: replicate_add)

lemma reader_turns:
  "run demo_env until_stop stop_session =
     \<lparr>twilio_inbox = [''media 1200''], sts_inbox = [Binary chunk_1200],
      twilio_open = True, sts_open = True,
      rs = \<lparr>inbuffer = replicate 800 255, audio_queue = [replicate 3200 255],
            streamsid_queue = [JStr ''A''], printed = [Print [PStr ''Twilio STOP'']]\<rparr>,
      taken_streamsid = None, handling = None,
      twilio_receiver_task = Finished, sts_sender_task = Running,
      sts_receiver_task = Running, wire = []\<rparr>"
  by (simp add: until_stop_def stop_session_def session0_def rstate0_def twilio_receiver_turn_def
        twilio_step_parse demo_parse drain_step drain_stop BUFFER_SIZE_def chunk_2000_def
        flip: replicate_add)

lemma stopped_session_state:
  "stopped_session =
     \<lparr>twilio_inbox = [''media 1200''], sts_inbox = [],
      twilio_open = True, sts_open = False,
      rs = \<lparr>inbuffer = replicate 800 255, audio_queue = [],
            streamsid_queue = [], printed = [Print [PStr ''Twilio STOP'']]\<rparr>,
      taken_streamsid = Some (JStr ''A''), handling = None,
      twilio_receiver_task = Finished, sts_sender_task = Running,
      sts_receiver_task = Finished,
      wire = [StsSend (StsBinary (replicate 3200 255)),
              TwilioSendText (media_message demo_env (JStr ''A'') chunk_1200)]\<rparr>"
  by (simp add: stopped_session_def mid_stream after_stop_def twilio_receiver_turn_def
        sts_sender_turn_def sts_receiver_turn_def twilio_step_parse demo_parse)

lemma dropped_session_state:
  "dropped_session =
     \<lparr>twilio_inbox = [''media 1200''], sts_inbox = [Binary chunk_1200],
      twilio_open = True, sts_open = False,
      rs = \<lparr>inbuffer = replicate 800 255, audio_queue = [],
            streamsid_queue = [], printed = [Print [PStr ''Twilio STOP'']]\<rparr>,
      taken_streamsid = Some (JStr ''A''), handling = None,
      twilio_receiver_task = Finished, sts_sender_task = Raised connection_closed,
      sts_receiver_task = Running, wire = []\<rparr>"
  by (simp add: dropped_session_def mid_stream twilio_receiver_turn_def
        sts_sender_turn_def twilio_step_parse demo_parse)

text \<open>
  A turn of \<^verbatim>\<open>sts_receiver\<close> ends at the next \<^verbatim>\<open>await\<close>: a frame can reach the agent between
  the embeddings request and the index query of the same message.
\<close>

lemma frame_between_requests:
  "wire (run agent_env
          [Resume TwilioReceiver, Resume TwilioReceiver, Resume TwilioReceiver,
           Resume StsReceiver, Resume StsReceiver, Resume StsSender, Resume StsReceiver]
          talking_session) =
     [Print [PStr ''Deepgram:'', PJson (JObj final_event)],
      Print [PStr ''Final transcript:'', PStr ''hello''],
      EmbeddingsCreate ''hello'',
      StsSend (StsBinary (replicate 3200 255)),
      IndexQuery [] 3,
      Print [PStr ''Sending response.create to Deepgram...''],
      StsSend (StsText (response_create (JStr ''r1'') (instructions ''hello'' sentinel)))]"
proof -
  have p: "parse_inbound agent_env ''start A'' = Inr (SessionStart (JStr ''A''))"
    "parse_inbound agent_env ''media 2000'' = Inr (MediaChunk chunk_2000)"
    by (simp_all add: parse_inbound_def agent_env_def demo_env_def demo_messages_def payloads_differ)
  have t: "dict_get final_event ''type'' \<noteq> JStr ''UserStartedSpeaking''"
    by (simp add: final_event_def dict_get_def)
  have c: "retrieve_context agent_env ''hello'' = ([EmbeddingsCreate ''hello'', IndexQuery [] 3], sentinel)"
    by (simp add: retrieve_context_def rag_retrieve_def agent_env_def demo_env_def)
  have h: "handle_text_message agent_env (JObj final_event) (JStr ''A'') =
      ([Print [PStr ''Final transcript:'', PStr ''hello''],
        EmbeddingsCreate ''hello'', IndexQuery [] 3,
        Print [PStr ''Sending response.create to Deepgram...''],
        StsSend (StsText (response_create (JStr ''r1'') (instructions ''hello'' sentinel)))],
       Inr ())"
    using t by (simp add: handle_text_message_final [OF extract_final_event] handle_barge_in_obj c)
  have j: "json_loads agent_env ''final'' = Some (JObj final_event)"
    by (simp add: agent_env_def)
  show ?thesis
    by (simp add: talking_session_def session0_def rstate0_def twilio_receiver_turn_def
          sts_receiver_turn_def sts_sender_turn_def twilio_step_parse p j h drain_step drain_stop
          BUFFER_SIZE_def chunk_2000_def flip: replicate_add)
qed

text \<open>
  Claim C6 says that a stop event ends the three loops and that nothing is sent on either
  transport afterwards. Only \<^verbatim>\<open>twilio_receiver\<close> breaks on it: once the stop has been read
  with nothing yet sent, the frame still queued is sent to the agent, the agent's audio is
  forwarded to the telephony transport, and \<^verbatim>\<open>sts_sender\<close> and \<^verbatim>\<open>sts_receiver\<close> are still
  running.
\<close>

theorem frames_sent_after_stop:
  "twilio_receiver_task (run demo_env until_stop stop_session) = Finished \<and>
   wire (run demo_env until_stop stop_session) = [] \<and>
   wire (run demo_env (until_stop @ [Resume StsSender, Resume StsReceiver, Resume StsReceiver])
           stop_session) =
     [StsSend (StsBinary (replicate 3200 255)),
      TwilioSendText (media_message demo_env (JStr ''A'') chunk_1200)] \<and>
   sts_sender_task
     (run demo_env (until_stop @ [Resume StsSender, Resume StsReceiver, Resume StsReceiver])
        stop_session) = Running \<and>
   sts_receiver_task
     (run demo_env (until_stop @ [Resume StsSender, Resume StsReceiver, Resume StsReceiver])
        stop_session) = Running"
  by (simp add: run_append reader_turns sts_sender_turn_def sts_receiver_turn_def)

text \<open>
  Claim C6, amended. Whenever \<^verbatim>\<open>twilio_receiver\<close> reads a stop event in a session reached
  from the start, with \<^verbatim>\<open>sts_sender\<close> running, then under every later schedule:
  \<^verbatim>\<open>twilio_receiver\<close> has returned and reads no further telephony message; no frame is
  enqueued any more, the queue only loses frames from its front; \<^verbatim>\<open>sts_sender\<close> never
  returns: either it is running and has sent exactly the frames taken from the queue, or
  a send on the closed agent transport has ended it with that exception, the last frame
  taken being lost; and \<^verbatim>\<open>sts_receiver\<close> has returned only if the agent transport is
  closed and all its messages are read.
\<close>

theorem stop_ends_reader_only:
  assumes "s = run e evs0 (session0 tin sin)"
    and "twilio_receiver_task s = Running" and "sts_sender_task s = Running"
    and "twilio_inbox s = m # rest" and "parse_inbound e m = Inr SessionStop"
    and "s' = run e evs (occur e (Resume TwilioReceiver) s)"
  shows "twilio_receiver_task s' = Finished \<and> twilio_inbox s' = rest \<and>
         (\<exists>p. audio_queue (rs s) = p @ audio_queue (rs s') \<and>
            (sts_sender_task s' = Running \<and> sent_frames (wire s') = sent_frames (wire s) @ p \<or>
             sts_sender_task s' = Raised connection_closed \<and> \<not> sts_open s' \<and> p \<noteq> [] \<and>
               sent_frames (wire s') = sent_frames (wire s) @ butlast p)) \<and>
         (sts_receiver_task s' = Finished \<longrightarrow> \<not> sts_open s' \<and> sts_inbox s' = [])"
proof -
  let ?s = "occur e (Resume TwilioReceiver) s"
  have t: "?s = s\<lparr>twilio_inbox := rest,
                   rs := (rs s)\<lparr>printed := printed (rs s) @ [Print [PStr ''Twilio STOP'']]\<rparr>,
                   twilio_receiver_task := Finished\<rparr>"
    using assms(2,4,5) by (simp add: twilio_receiver_turn_def twilio_step_parse)
  from reachable_sound [of e evs0 tin sin] assms(1)
  have nf0: "no_frames_pending s"
    and fin0: "sts_receiver_task s = Finished \<longrightarrow> \<not> sts_open s \<and> sts_inbox s = []"
    by simp_all
  have tr: "twilio_receiver_task ?s \<noteq> Running" unfolding t by simp
  have nf: "no_frames_pending ?s" unfolding t using nf0 by (simp add: no_frames_pending_def)
  have fin: "sts_receiver_task ?s = Finished \<longrightarrow> \<not> sts_open ?s \<and> sts_inbox ?s = []"
    unfolding t using fin0 by simp
  have q: "audio_queue (rs s) = [] @ audio_queue (rs ?s)" unfolding t by simp
  have st: "sts_sender_task ?s = Running \<and> sent_frames (wire ?s) = sent_frames (wire s) @ [] \<or>
            sts_sender_task ?s = Raised connection_closed \<and> \<not> sts_open ?s \<and> [] \<noteq> [] \<and>
              sent_frames (wire ?s) = sent_frames (wire s) @ butlast []"
    unfolding t using assms(3) by simp
  have a: "twilio_receiver_task ?s = Finished" "twilio_inbox ?s = rest"
    unfolding t by simp_all
  from run_after_stop [OF tr nf fin q st, of e evs] run_sound [OF nf fin, of e evs] a
  show ?thesis unfolding assms(6) by simp
qed

theorem stop_ends_reader_only_witness:
  "twilio_receiver_task stopped_session = Finished \<and>
   twilio_inbox stopped_session = [''media 1200''] \<and>
   audio_queue (rs (run demo_env before_stop stop_session)) = [replicate 3200 255] \<and>
   audio_queue (rs stopped_session) = [] \<and>
   sent_frames (wire stopped_session) = [replicate 3200 255] \<and>
   sts_sender_task stopped_session = Running \<and>
   sts_receiver_task stopped_session = Finished \<and>
   sts_open stopped_session = False \<and> sts_inbox stopped_session = [] \<and>
   sts_sender_task dropped_session = Raised connection_closed \<and>
   audio_queue (rs dropped_session) = [] \<and>
   sent_frames (wire dropped_session) = []"
proof -
  have 1: "run demo_env before_stop stop_session =
      run demo_env before_stop
        (session0 [''start A'', ''media 2000'', ''media 2000'', ''stop'', ''media 1200'']
           [Binary chunk_1200])"
    by (simp add: stop_session_def)
  have 2: "twilio_receiver_task (run demo_env before_stop stop_session) = Running"
    and 3: "sts_sender_task (run demo_env before_stop stop_session) = Running"
    and 4: "twilio_inbox (run demo_env before_stop stop_session) = ''stop'' # [''media 1200'']"
    by (simp_all add: mid_stream)
  have 5: "parse_inbound demo_env ''stop'' = Inr SessionStop"
    by (simp add: demo_parse)
  have 6: "stopped_session =
      run demo_env after_stop
        (occur demo_env (Resume TwilioReceiver) (run demo_env before_stop stop_session))"
    by (simp only: stopped_session_def)
  have 7: "dropped_session =
      run demo_env [CloseSts, Resume StsSender]
        (occur demo_env (Resume TwilioReceiver) (run demo_env before_stop stop_session))"
    by (simp only: dropped_session_def)
  show ?thesis
    using stop_ends_reader_only [OF 1 2 3 4 5 6] stop_ends_reader_only [OF 1 2 3 4 5 7]
    by (simp add: stopped_session_state dropped_session_state mid_stream)
qed

end
